theory Spec2Isabelle
  imports Complex_Main "HOL-Library.AList" "HOL-Library.Word"
begin

section \<open>Python values\<close>

text \<open>
  The crash collector of \<^verbatim>\<open>antenna/breakpad_resource.py\<close> moves Python objects around:
  the annotations (\<^verbatim>\<open>raw_crash\<close>) are whatever the form fields or \<^verbatim>\<open>json.loads\<close> produced,
  stamped by the handler with strings, a float, a nested dict and the throttler's results.
  A dict is an association list in insertion order; assignment to a key is
  \<^const>\<open>AList.update\<close>, which replaces in place or appends, as Python does.
\<close>

type_synonym bytes = "8 word list"

text \<open>
  Modelled from the spec: the result constants of \<^verbatim>\<open>antenna.throttler\<close>, a module that is
  not among the sources at hand. The glossary lists ACCEPT, FAKEACCEPT, REJECT and DEFER;
  the handler names \<^verbatim>\<open>REJECT\<close> and \<^verbatim>\<open>FAKEACCEPT\<close> and treats every other result alike.
\<close>

datatype throttle_result = ACCEPT | DEFER | REJECT | FAKEACCEPT

datatype pyval =
    PNone
  | PBool bool
  | PInt int
  | PFloat rat
  | PStr string
  | PBytes bytes
  | PList "pyval list"
  | PDict "(string \<times> pyval) list"
  | PResult throttle_result

type_synonym pydict = "(string \<times> pyval) list"

datatype error = ValueError | TypeError

text \<open>
  Truth value of an object, as \<^verbatim>\<open>if not raw_crash\<close> tests it. A throttle result never stands
  where the handler asks for one, and its numeric value is not in the sources at hand, so
  that case is left open.
\<close>

fun truthy :: "pyval \<Rightarrow> bool" where
  "truthy PNone = False"
| "truthy (PBool b) = b"
| "truthy (PInt i) = (i \<noteq> 0)"
| "truthy (PFloat r) = (r \<noteq> 0)"
| "truthy (PStr s) = (s \<noteq> [])"
| "truthy (PBytes b) = (b \<noteq> [])"
| "truthy (PList xs) = (xs \<noteq> [])"
| "truthy (PDict d) = (d \<noteq> [])"

text \<open>
  \<^verbatim>\<open>obj[key] = v\<close> with a string key: only a dict supports it. A list wants an integer
  index, and strings, numbers and None support no item assignment at all: TypeError.
\<close>

fun setitem :: "pyval \<Rightarrow> string \<Rightarrow> pyval \<Rightarrow> error + pyval" where
  "setitem (PDict d) k v = Inr (PDict (AList.update k v d))"
| "setitem _ k v = Inl TypeError"

subsection \<open>String methods\<close>

text \<open>\<^verbatim>\<open>str.isspace\<close> on the code points a header value can hold (Latin-1).\<close>

definition py_isspace :: "char \<Rightarrow> bool" where
  "py_isspace c = (of_char c \<in> {9, 10, 11, 12, 13, 28, 29, 30, 31, 32, 133, 160 :: nat})"

definition strip_with :: "(char \<Rightarrow> bool) \<Rightarrow> string \<Rightarrow> string" where
  "strip_with p s = rev (dropWhile p (rev (dropWhile p s)))"

text \<open>\<^verbatim>\<open>s.strip()\<close> and \<^verbatim>\<open>s.strip('-')\<close>.\<close>

definition py_strip :: "string \<Rightarrow> string" where
  "py_strip s = strip_with py_isspace s"

definition strip_dash :: "string \<Rightarrow> string" where
  "strip_dash s = strip_with (\<lambda>c. c = CHR ''-'') s"

text \<open>\<^verbatim>\<open>s.split(';', 1)\<close>: one piece when there is no separator, two otherwise.\<close>

definition split_once :: "char \<Rightarrow> string \<Rightarrow> string list" where
  "split_once c s =
     (let a = takeWhile (\<lambda>x. x \<noteq> c) s; b = dropWhile (\<lambda>x. x \<noteq> c) s
      in if b = [] then [a] else [a, tl b])"

definition startswith :: "string \<Rightarrow> string \<Rightarrow> bool" where
  "startswith s p = (take (length p) s = p)"

section \<open>Requests, library calls and configuration\<close>

text \<open>
  What \<^verbatim>\<open>extract_payload\<close> reads of a Falcon request: \<^verbatim>\<open>req.content_type\<close>,
  \<^verbatim>\<open>req.content_length\<close>, \<^verbatim>\<open>req.env.get('HTTP_CONTENT_ENCODING')\<close> and the bytes of
  \<^verbatim>\<open>req.stream\<close>. The length is the number Falcon's property returns, or \<open>None\<close>; what
  Falcon itself does with a header that is not a number lies outside the module.
\<close>

record request =
  content_type :: "string option"
  content_length :: "nat option"
  http_content_encoding :: "string option"
  stream :: bytes

text \<open>One entry of \<^verbatim>\<open>cgi.FieldStorage.list\<close>: its name, media type and value.\<close>

record fs_item =
  fs_name :: "string option"
  fs_type :: string
  fs_value :: pyval

text \<open>A \<^verbatim>\<open>datetime\<close> in UTC, as microseconds since the epoch.\<close>

type_synonym datetime = int

text \<open>
  The calls that leave the module. Each is a parameter of the model, so every theorem
  holds for whatever these return:
  \<^item> \<^verbatim>\<open>zlib.decompress\<close>, \<open>None\<close> when it raises \<^verbatim>\<open>zlib.error\<close>;
  \<^item> \<^verbatim>\<open>cgi.FieldStorage(fp, environ)\<close>, given the body and the environment's
    \<^verbatim>\<open>CONTENT_TYPE\<close> and \<^verbatim>\<open>CONTENT_LENGTH\<close>; it raises ValueError on a boundary it
    does not accept;
  \<^item> \<^verbatim>\<open>json.loads\<close>, which raises ValueError on text that is not JSON;
  \<^item> \<^verbatim>\<open>hashlib.sha256(b).hexdigest()\<close> on bytes;
  \<^item> \<^verbatim>\<open>sanitize_dump_name\<close>, \<^verbatim>\<open>validate_crash_id\<close>, \<^verbatim>\<open>create_crash_id\<close> of
    \<^verbatim>\<open>antenna.util\<close> and \<^verbatim>\<open>Throttler.throttle\<close>, none of them among the sources at hand;
  \<^item> \<^verbatim>\<open>datetime.isoformat\<close> and the builtin \<^verbatim>\<open>str\<close> on an object that is not a string.
\<close>

record libs =
  zlib_decompress :: "bytes \<Rightarrow> bytes option"
  FieldStorage :: "bytes \<Rightarrow> string \<Rightarrow> nat \<Rightarrow> error + fs_item list"
  json_loads :: "pyval \<Rightarrow> error + pyval"
  sha256_hexdigest :: "bytes \<Rightarrow> string"
  sanitize_dump_name :: "string \<Rightarrow> string"
  throttle :: "pydict \<Rightarrow> throttle_result \<times> string \<times> pyval"
  validate_crash_id :: "pyval \<Rightarrow> bool"
  create_crash_id :: "datetime \<Rightarrow> throttle_result \<Rightarrow> string"
  isoformat :: "datetime \<Rightarrow> string"
  builtin_str :: "pyval \<Rightarrow> string"

text \<open>The options of \<^verbatim>\<open>required_config\<close> that name strings.\<close>

record config =
  dump_field :: string
  dump_id_prefix :: string

definition default_config :: config where
  "default_config = \<lparr>dump_field = ''upload_file_minidump'', dump_id_prefix = ''bp-''\<rparr>"

section \<open>The payload parser\<close>

text \<open>
  The state of the loop over \<^verbatim>\<open>fs.list\<close>: \<^verbatim>\<open>raw_crash\<close>, \<^verbatim>\<open>dumps\<close>, \<^verbatim>\<open>has_json\<close> and
  \<^verbatim>\<open>has_kvpairs\<close>.
\<close>

record parse_acc =
  acc_raw_crash :: pyval
  acc_dumps :: pydict
  has_json :: bool
  has_kvpairs :: bool

definition item_name :: "fs_item \<Rightarrow> string" where
  "item_name it = (case fs_name it of None \<Rightarrow> [] | Some n \<Rightarrow> n)"

definition is_bytes :: "pyval \<Rightarrow> bool" where
  "is_bytes v = (case v of PBytes _ \<Rightarrow> True | _ \<Rightarrow> False)"

text \<open>One pass of the loop body; the branches are in the order of the source.\<close>

definition extract_item :: "libs \<Rightarrow> fs_item \<Rightarrow> parse_acc \<Rightarrow> error + parse_acc" where
  "extract_item L it a =
     (if item_name it = ''dump_checksums'' then Inr a
      else if fs_type it \<noteq> [] \<and> startswith (fs_type it) ''application/json'' then
        (case json_loads L (fs_value it) of
           Inl e \<Rightarrow> Inl e
         | Inr v \<Rightarrow> Inr (a\<lparr>has_json := True, acc_raw_crash := v\<rparr>))
      else if fs_type it \<noteq> [] \<and>
              (startswith (fs_type it) ''application/octet-stream'' \<or> is_bytes (fs_value it)) then
        Inr (a\<lparr>acc_dumps :=
               AList.update (sanitize_dump_name L (item_name it)) (fs_value it) (acc_dumps a)\<rparr>)
      else
        (case setitem (acc_raw_crash a) (item_name it) (fs_value it) of
           Inl e \<Rightarrow> Inl e
         | Inr v \<Rightarrow> Inr (a\<lparr>has_kvpairs := True, acc_raw_crash := v\<rparr>)))"

fun extract_items :: "libs \<Rightarrow> fs_item list \<Rightarrow> parse_acc \<Rightarrow> error + parse_acc" where
  "extract_items L [] a = Inr a"
| "extract_items L (it # its) a =
     (case extract_item L it a of Inl e \<Rightarrow> Inl e | Inr a' \<Rightarrow> extract_items L its a')"

definition empty_acc :: parse_acc where
  "empty_acc = \<lparr>acc_raw_crash = PDict [], acc_dumps = [], has_json = False, has_kvpairs = False\<rparr>"

definition empty_crash :: "error + pyval \<times> pydict" where
  "empty_crash = Inr (PDict [], [])"

text \<open>From \<^verbatim>\<open>cgi.FieldStorage\<close> on: the loop and the test for a mixed payload.\<close>

definition parse_body :: "libs \<Rightarrow> bytes \<Rightarrow> string \<Rightarrow> nat \<Rightarrow> error + pyval \<times> pydict" where
  "parse_body L data ctype clen =
     (case FieldStorage L data ctype clen of
        Inl e \<Rightarrow> Inl e
      | Inr items \<Rightarrow>
          (case extract_items L items empty_acc of
             Inl e \<Rightarrow> Inl e
           | Inr a \<Rightarrow>
               if has_json a \<and> has_kvpairs a then empty_crash
               else Inr (acc_raw_crash a, acc_dumps a)))"

text \<open>
  \<^verbatim>\<open>extract_payload\<close>. The counters and histograms it feeds are left out: nothing reads
  them back. In the gzip branch the body is the first \<^verbatim>\<open>content_length\<close> bytes of the
  stream, decompressed, and \<^verbatim>\<open>CONTENT_LENGTH\<close> becomes the decompressed length.
\<close>

definition extract_payload :: "libs \<Rightarrow> request \<Rightarrow> error + pyval \<times> pydict" where
  "extract_payload L req =
     (case content_type req of
        None \<Rightarrow> empty_crash
      | Some ct \<Rightarrow>
          if ct = [] then empty_crash
          else
            (case map py_strip (split_once CHR '';'' ct) of
               [t, b] \<Rightarrow>
                 if t \<noteq> ''multipart/form-data'' \<or> \<not> startswith b ''boundary='' then empty_crash
                 else
                   (let clen = (case content_length req of None \<Rightarrow> 0 | Some n \<Rightarrow> n) in
                    if clen = 0 then empty_crash
                    else if http_content_encoding req = Some ''gzip'' then
                      (case zlib_decompress L (take clen (stream req)) of
                         None \<Rightarrow> empty_crash
                       | Some data \<Rightarrow> parse_body L data ct (length data))
                    else parse_body L (stream req) ct clen)
             | _ \<Rightarrow> empty_crash))"

section \<open>Crash reports and the submission handler\<close>

definition MAX_ATTEMPTS :: int where
  "MAX_ATTEMPTS = 20"

definition STATE_SAVE :: string where
  "STATE_SAVE = ''save''"

definition STATE_PUBLISH :: string where
  "STATE_PUBLISH = ''publish''"

text \<open>The class \<^verbatim>\<open>CrashReport\<close>: its constructor and \<^verbatim>\<open>set_state\<close>.\<close>

record crash_report =
  raw_crash :: pydict
  dumps :: pydict
  crash_id :: pyval
  errors :: int
  state :: "string option"

definition CrashReport :: "pydict \<Rightarrow> pydict \<Rightarrow> pyval \<Rightarrow> crash_report" where
  "CrashReport rc ds cid =
     \<lparr>raw_crash = rc, dumps = ds, crash_id = cid, errors = 0, state = None\<rparr>"

definition set_state :: "crash_report \<Rightarrow> string \<Rightarrow> crash_report" where
  "set_state cr st = cr\<lparr>state := Some st, errors := 0\<rparr>"

text \<open>
  The two clock readings of one call of \<^verbatim>\<open>on_post\<close>: \<^verbatim>\<open>time.time()\<close> on entry, in
  seconds since the epoch, and \<^verbatim>\<open>utc_now()\<close> once the payload has been parsed.
\<close>

record clock =
  time_time :: rat
  utc_now :: datetime

record response =
  status :: string
  resp_content_type :: string
  body :: string

definition HTTP_200 :: string where
  "HTTP_200 = ''200 OK''"

definition respond :: "string \<Rightarrow> response" where
  "respond b = \<lparr>status = HTTP_200, resp_content_type = ''text/plain'', body = b\<rparr>"

text \<open>
  The resource's mutable state. Every \<^verbatim>\<open>CrashReport\<close> object carries its identity, a
  number taken from \<open>next_oid\<close> when the handler constructs it: the queue and the workers
  pass the same object around and mutate it in place. \<open>held\<close> are the reports a worker
  has popped and whose backend call has not returned yet; \<open>calls\<close> records, oldest
  first, the calls of \<^verbatim>\<open>save_crash\<close> and \<^verbatim>\<open>publish_crash\<close> that have come back.

  A call ends in one of three ways. \<open>Raised\<close> is an \<^verbatim>\<open>Exception\<close> leaving the \<^verbatim>\<open>try\<close> block,
  the kind line 456 catches. \<open>Escaped\<close> is an exception that is not an \<^verbatim>\<open>Exception\<close>
  (\<^verbatim>\<open>gevent.Timeout\<close>, \<^verbatim>\<open>GreenletExit\<close>, \<^verbatim>\<open>KeyboardInterrupt\<close>): \<^verbatim>\<open>except Exception\<close> lets it
  through and it ends the worker.
\<close>

datatype outcome = Returned | Raised | Escaped

datatype call = SaveCall nat outcome | PublishCall nat outcome

record system =
  crashmover_queue :: "(nat \<times> crash_report) list"
  held :: "(nat \<times> crash_report) list"
  calls :: "call list"
  next_oid :: nat

definition init_system :: system where
  "init_system = \<lparr>crashmover_queue = [], held = [], calls = [], next_oid = 0\<rparr>"

text \<open>\<^verbatim>\<open>self.crashmover_queue.append(crash_report)\<close> for a freshly built report.\<close>

definition enqueue_new :: "crash_report \<Rightarrow> system \<Rightarrow> system" where
  "enqueue_new cr s =
     s\<lparr>crashmover_queue := crashmover_queue s @ [(next_oid s, cr)], next_oid := Suc (next_oid s)\<rparr>"

text \<open>
  The dict comprehension over \<^verbatim>\<open>dumps.items()\<close>: \<^verbatim>\<open>hashlib.sha256\<close> takes bytes and
  raises TypeError on anything else (a text value filed under a dump's media type).
\<close>

fun checksums :: "libs \<Rightarrow> pydict \<Rightarrow> error + pydict" where
  "checksums L [] = Inr []"
| "checksums L ((n, v) # ds) =
     (case v of
        PBytes b \<Rightarrow>
          (case checksums L ds of
             Inl e \<Rightarrow> Inl e
           | Inr cs \<Rightarrow> Inr ((n, PStr (sha256_hexdigest L b)) # cs))
      | _ \<Rightarrow> Inl TypeError)"

text \<open>Lines 371 to 381 of \<^verbatim>\<open>on_post\<close>: the timestamps and the checksums.\<close>

definition stamp :: "libs \<Rightarrow> clock \<Rightarrow> pydict \<Rightarrow> pydict \<Rightarrow> pydict" where
  "stamp L clk cs d =
     AList.update ''MinidumpSha256Hash''
       (case map_of cs ''upload_file_minidump'' of None \<Rightarrow> PStr [] | Some h \<Rightarrow> h)
       (AList.update ''dump_checksums'' (PDict cs)
         (AList.update ''timestamp'' (PFloat (time_time clk))
           (AList.update ''submitted_timestamp'' (PStr (isoformat L (utc_now clk))) d)))"

definition get_throttle_result ::
  "libs \<Rightarrow> pydict \<Rightarrow> (throttle_result \<times> string \<times> pyval) \<times> pydict" where
  "get_throttle_result L d =
     (case throttle L d of
        (result, rule_name, throttle_rate) \<Rightarrow>
          ((result, rule_name, throttle_rate),
           AList.update ''throttle_rate'' throttle_rate
             (AList.update ''legacy_processing'' (PResult result) d)))"

text \<open>Lines 387 to 398: keep a valid \<^verbatim>\<open>uuid\<close> of the client, mint one otherwise.\<close>

definition assign_crash_id ::
  "libs \<Rightarrow> clock \<Rightarrow> throttle_result \<Rightarrow> pydict \<Rightarrow> pyval \<times> pydict" where
  "assign_crash_id L clk result d =
     (let minted = PStr (create_crash_id L (utc_now clk) result) in
      case map_of d ''uuid'' of
        None \<Rightarrow> (minted, AList.update ''uuid'' minted d)
      | Some u \<Rightarrow>
          if validate_crash_id L u then (u, d)
          else (minted, AList.update ''uuid'' minted d))"

text \<open>\<^verbatim>\<open>'CrashID=%s%s\n' % (prefix, crash_id)\<close>.\<close>

definition format_s :: "libs \<Rightarrow> pyval \<Rightarrow> string" where
  "format_s L v = (case v of PStr s \<Rightarrow> s | _ \<Rightarrow> builtin_str L v)"

definition crash_id_body :: "libs \<Rightarrow> config \<Rightarrow> pyval \<Rightarrow> string" where
  "crash_id_body L cfg cid = ''CrashID='' @ dump_id_prefix cfg @ format_s L cid @ [CHR 0x0A]"

text \<open>
  Lines 408 to 424: the three ways out. \<^verbatim>\<open>hb_run_crashmover\<close> only spawns a worker when the
  pool has room; what a worker then does to the queue are the actions further down.
\<close>

definition dispatch ::
  "libs \<Rightarrow> config \<Rightarrow> throttle_result \<Rightarrow> pydict \<Rightarrow> pydict \<Rightarrow> pyval \<Rightarrow> system
     \<Rightarrow> response \<times> system" where
  "dispatch L cfg result d ds cid s =
     (if result = REJECT then (respond ''Discarded=1'', s)
      else if result = FAKEACCEPT then (respond (crash_id_body L cfg cid), s)
      else (respond (crash_id_body L cfg cid),
            enqueue_new (set_state (CrashReport d ds cid) STATE_SAVE) s))"

text \<open>
  Lines 371 to 400: everything \<^verbatim>\<open>on_post\<close> writes into \<^verbatim>\<open>raw_crash\<close>, with the throttle
  result and the crash id it settles on.
\<close>

definition annotate ::
  "libs \<Rightarrow> config \<Rightarrow> clock \<Rightarrow> pydict \<Rightarrow> pydict \<Rightarrow> throttle_result \<times> pyval \<times> pydict" where
  "annotate L cfg clk cs d0 =
     (case get_throttle_result L (stamp L clk cs d0) of
        ((result, rule_name, percentage), d1) \<Rightarrow>
          (case assign_crash_id L clk result d1 of
             (cid, d2) \<Rightarrow>
               (result, cid,
                AList.update ''type_tag'' (PStr (strip_dash (dump_id_prefix cfg))) d2)))"

text \<open>
  What \<^verbatim>\<open>on_post\<close> does once the payload is truthy. The first statement that touches
  \<^verbatim>\<open>raw_crash\<close> is an item assignment, which raises TypeError unless it is a dict; from
  then on it is one. Logging and counters are left out.
\<close>

definition accept_crash ::
  "libs \<Rightarrow> config \<Rightarrow> clock \<Rightarrow> pyval \<Rightarrow> pydict \<Rightarrow> system \<Rightarrow> error + response \<times> system" where
  "accept_crash L cfg clk rc ds s =
     (case rc of
        PDict d0 \<Rightarrow>
          (case checksums L ds of
             Inl e \<Rightarrow> Inl e
           | Inr cs \<Rightarrow>
               (case annotate L cfg clk cs d0 of
                  (result, cid, d) \<Rightarrow> Inr (dispatch L cfg result d ds cid s)))
      | _ \<Rightarrow> Inl TypeError)"

text \<open>
  \<^verbatim>\<open>on_post\<close>: \<open>Inl\<close> is an exception leaving the handler; the queue is then as it was,
  since the only append is the handler's last step but one.
\<close>

definition on_post ::
  "libs \<Rightarrow> config \<Rightarrow> clock \<Rightarrow> request \<Rightarrow> system \<Rightarrow> error + response \<times> system" where
  "on_post L cfg clk req s =
     (case extract_payload L req of
        Inl e \<Rightarrow> Inl e
      | Inr (rc, ds) \<Rightarrow>
          if \<not> truthy rc then Inr (respond ''Discarded=1'', s)
          else accept_crash L cfg clk rc ds s)"

section \<open>The crashmover\<close>

text \<open>The \<^verbatim>\<open>except Exception\<close> block: count the error, then requeue or drop.\<close>

definition on_exception :: "crash_report \<Rightarrow> crash_report option" where
  "on_exception cr =
     (let cr' = cr\<lparr>errors := errors cr + 1\<rparr>
      in if errors cr' < MAX_ATTEMPTS then Some cr' else None)"

text \<open>
  One pass of the loop of \<^verbatim>\<open>crashmover_process_queue\<close> on the report it popped, given how
  the backend call ended: the report to append to the queue, if any. A report in neither
  state makes no call and is not appended. When the exception is one the worker does not
  catch, neither the \<^verbatim>\<open>append\<close> of the \<^verbatim>\<open>try\<close> block nor the \<^verbatim>\<open>except\<close> block runs: the
  report was popped at line 442 and nothing refers to it any more.
\<close>

definition crashmover_attempt :: "outcome \<Rightarrow> crash_report \<Rightarrow> crash_report option" where
  "crashmover_attempt out cr =
     (if state cr = Some STATE_SAVE then
        (case out of
           Returned \<Rightarrow> Some (set_state cr STATE_PUBLISH)
         | Raised \<Rightarrow> on_exception cr
         | Escaped \<Rightarrow> None)
      else if state cr = Some STATE_PUBLISH then
        (case out of
           Returned \<Rightarrow> None
         | Raised \<Rightarrow> on_exception cr
         | Escaped \<Rightarrow> None)
      else None)"

definition backend_call :: "nat \<Rightarrow> crash_report \<Rightarrow> outcome \<Rightarrow> call list" where
  "backend_call i cr out =
     (if state cr = Some STATE_SAVE then [SaveCall i out]
      else if state cr = Some STATE_PUBLISH then [PublishCall i out]
      else [])"

text \<open>
  The resource runs under cooperative scheduling: the handler and the workers interleave
  only where a backend call waits. So a run is a sequence of atomic actions: a request
  handled, a worker popping the head of the queue and starting its call, or the call of
  a held report coming back. The pool only bounds how many reports are held at once.
\<close>

datatype action = Post clock request | Pop | Complete nat outcome

definition popleft :: "system \<Rightarrow> system" where
  "popleft s =
     (case crashmover_queue s of
        [] \<Rightarrow> s
      | x # q \<Rightarrow> s\<lparr>crashmover_queue := q, held := held s @ [x]\<rparr>)"

definition complete :: "nat \<Rightarrow> outcome \<Rightarrow> system \<Rightarrow> system" where
  "complete i out s =
     (case find (\<lambda>x. fst x = i) (held s) of
        None \<Rightarrow> s
      | Some x \<Rightarrow>
          s\<lparr>held := remove1 x (held s),
            crashmover_queue := crashmover_queue s @
              (case crashmover_attempt out (snd x) of None \<Rightarrow> [] | Some cr' \<Rightarrow> [(i, cr')]),
            calls := calls s @ backend_call i (snd x) out\<rparr>)"

fun perform :: "libs \<Rightarrow> config \<Rightarrow> action \<Rightarrow> system \<Rightarrow> system" where
  "perform L cfg (Post clk req) s =
     (case on_post L cfg clk req s of Inl e \<Rightarrow> s | Inr (resp, s') \<Rightarrow> s')"
| "perform L cfg Pop s = popleft s"
| "perform L cfg (Complete i out) s = complete i out s"

fun run :: "libs \<Rightarrow> config \<Rightarrow> action list \<Rightarrow> system \<Rightarrow> system" where
  "run L cfg [] s = s"
| "run L cfg (a # as) s = run L cfg as (perform L cfg a s)"

text \<open>
  One report followed through the successive times it is dequeued: \<open>None\<close> once it has
  left the pipeline, published or dropped.
\<close>

fun attempts :: "outcome list \<Rightarrow> crash_report \<Rightarrow> crash_report option" where
  "attempts [] cr = Some cr"
| "attempts (out # outs) cr =
     (case crashmover_attempt out cr of None \<Rightarrow> None | Some cr' \<Rightarrow> attempts outs cr')"

text \<open>The calls made on behalf of the report with identity \<open>i\<close> along the way.\<close>

fun attempt_calls :: "nat \<Rightarrow> outcome list \<Rightarrow> crash_report \<Rightarrow> call list" where
  "attempt_calls i [] cr = []"
| "attempt_calls i (out # outs) cr =
     backend_call i cr out @
     (case crashmover_attempt out cr of None \<Rightarrow> [] | Some cr' \<Rightarrow> attempt_calls i outs cr')"

text \<open>The identities of the reports the resource still refers to.\<close>

definition live_oids :: "system \<Rightarrow> nat list" where
  "live_oids s = map fst (crashmover_queue s @ held s)"

definition wf_system :: "system \<Rightarrow> bool" where
  "wf_system s = (distinct (live_oids s) \<and> list_all (\<lambda>i. i < next_oid s) (live_oids s))"

section \<open>The specification's reading of the parser\<close>

text \<open>
  The kinds of part of section 4.A, step 5, with the tests the loop applies, and the six
  ways of being malformed. \<open>body_items\<close> are the parts of the body, decompressed if it
  is gzipped.
\<close>

definition is_skipped :: "fs_item \<Rightarrow> bool" where
  "is_skipped it = (item_name it = ''dump_checksums'')"

definition is_json_part :: "fs_item \<Rightarrow> bool" where
  "is_json_part it = (\<not> is_skipped it \<and> startswith (fs_type it) ''application/json'')"

definition is_dump_part :: "fs_item \<Rightarrow> bool" where
  "is_dump_part it =
     (\<not> is_skipped it \<and> \<not> is_json_part it \<and> fs_type it \<noteq> [] \<and>
      (startswith (fs_type it) ''application/octet-stream'' \<or> is_bytes (fs_value it)))"

definition is_text_part :: "fs_item \<Rightarrow> bool" where
  "is_text_part it = (\<not> is_skipped it \<and> \<not> is_json_part it \<and> \<not> is_dump_part it)"

definition media_type :: "string \<Rightarrow> string" where
  "media_type ct = py_strip (takeWhile (\<lambda>x. x \<noteq> CHR '';'') ct)"

definition has_boundary :: "string \<Rightarrow> bool" where
  "has_boundary ct =
     (case dropWhile (\<lambda>x. x \<noteq> CHR '';'') ct of
        [] \<Rightarrow> False
      | _ # ps \<Rightarrow> startswith (py_strip ps) ''boundary='')"

definition declared_length :: "request \<Rightarrow> nat" where
  "declared_length req = (case content_length req of None \<Rightarrow> 0 | Some n \<Rightarrow> n)"

definition header_malformed :: "request \<Rightarrow> bool" where
  "header_malformed req =
     ((case content_type req of
         None \<Rightarrow> True
       | Some ct \<Rightarrow> ct = [] \<or> media_type ct \<noteq> ''multipart/form-data'' \<or> \<not> has_boundary ct)
      \<or> declared_length req = 0)"

definition is_gzip :: "request \<Rightarrow> bool" where
  "is_gzip req = (http_content_encoding req = Some ''gzip'')"

definition bad_gzip :: "libs \<Rightarrow> request \<Rightarrow> bool" where
  "bad_gzip L req =
     (is_gzip req \<and> zlib_decompress L (take (declared_length req) (stream req)) = None)"

definition body_items :: "libs \<Rightarrow> request \<Rightarrow> error + fs_item list" where
  "body_items L req =
     (let ct = (case content_type req of None \<Rightarrow> [] | Some c \<Rightarrow> c) in
      if is_gzip req then
        (case zlib_decompress L (take (declared_length req) (stream req)) of
           None \<Rightarrow> Inr []
         | Some data \<Rightarrow> FieldStorage L data ct (length data))
      else FieldStorage L (stream req) ct (declared_length req))"

definition mixed_payload :: "fs_item list \<Rightarrow> bool" where
  "mixed_payload items = (list_ex is_json_part items \<and> list_ex is_text_part items)"

definition malformed :: "libs \<Rightarrow> request \<Rightarrow> bool" where
  "malformed L req =
     (header_malformed req \<or> bad_gzip L req \<or>
      (case body_items L req of Inl e \<Rightarrow> False | Inr items \<Rightarrow> mixed_payload items))"

text \<open>
  What a payload that is not mixed accumulates: the text parts in order, or else the
  contents of the last JSON blob, and the dumps under their sanitized names.
\<close>

definition loaded :: "libs \<Rightarrow> fs_item \<Rightarrow> pyval" where
  "loaded L it = (case json_loads L (fs_value it) of Inl e \<Rightarrow> PDict [] | Inr v \<Rightarrow> v)"

definition put_text :: "fs_item \<Rightarrow> pydict \<Rightarrow> pydict" where
  "put_text it d = AList.update (item_name it) (fs_value it) d"

definition put_dump :: "libs \<Rightarrow> fs_item \<Rightarrow> pydict \<Rightarrow> pydict" where
  "put_dump L it d = AList.update (sanitize_dump_name L (item_name it)) (fs_value it) d"

definition annotations_of :: "libs \<Rightarrow> fs_item list \<Rightarrow> pyval" where
  "annotations_of L items =
     (if list_ex is_json_part items then loaded L (last (filter is_json_part items))
      else PDict (fold put_text (filter is_text_part items) []))"

definition dumps_of :: "libs \<Rightarrow> fs_item list \<Rightarrow> pydict" where
  "dumps_of L items = fold (put_dump L) (filter is_dump_part items) []"

definition accumulated :: "libs \<Rightarrow> fs_item list \<Rightarrow> pyval \<times> pydict" where
  "accumulated L items = (annotations_of L items, dumps_of L items)"

section \<open>Properties asked of the annotations\<close>

definition is_str :: "pyval \<Rightarrow> bool" where
  "is_str v = (case v of PStr _ \<Rightarrow> True | _ \<Rightarrow> False)"

definition all_str_values :: "pydict \<Rightarrow> bool" where
  "all_str_values d = list_all (\<lambda>p. is_str (snd p)) d"

text \<open>The keys under which the handler stores something that is not a string.\<close>

definition typed_keys :: "string list" where
  "typed_keys = [''timestamp'', ''dump_checksums'', ''legacy_processing'', ''throttle_rate'']"

text \<open>
  \<^verbatim>\<open>timestamp\<close> and \<^verbatim>\<open>submitted_timestamp\<close> name one instant: the text is the ISO form of
  the float's instant, to the microsecond a \<^verbatim>\<open>datetime\<close> resolves.
\<close>

definition same_moment :: "libs \<Rightarrow> pydict \<Rightarrow> bool" where
  "same_moment L d =
     (case (map_of d ''timestamp'', map_of d ''submitted_timestamp'') of
        (Some (PFloat t), Some (PStr txt)) \<Rightarrow> txt = isoformat L (round (t * 1000000))
      | _ \<Rightarrow> False)"

text \<open>The report a call of the handler appended, if it appended one.\<close>

definition enqueued :: "system \<Rightarrow> system \<Rightarrow> crash_report option" where
  "enqueued s s' =
     (if crashmover_queue s' = crashmover_queue s then None
      else Some (snd (last (crashmover_queue s'))))"

section \<open>Invariants of a run\<close>

text \<open>
  In a list of backend calls, every publish comes after a save of the same report that
  returned; \<open>before\<close> are the calls already seen.
\<close>

fun saved_first :: "call list \<Rightarrow> call list \<Rightarrow> bool" where
  "saved_first before [] = True"
| "saved_first before (c # cs) =
     ((case c of PublishCall i out \<Rightarrow> SaveCall i Returned \<in> set before | _ \<Rightarrow> True) \<and>
      saved_first (before @ [c]) cs)"

definition errors_bounded :: "system \<Rightarrow> bool" where
  "errors_bounded s =
     list_all (\<lambda>x. errors (snd x) < MAX_ATTEMPTS) (crashmover_queue s @ held s)"

definition publish_ready :: "system \<Rightarrow> bool" where
  "publish_ready s =
     list_all (\<lambda>x. state (snd x) = Some STATE_PUBLISH \<longrightarrow> SaveCall (fst x) Returned \<in> set (calls s))
       (crashmover_queue s @ held s)"

text \<open>The report \<open>i\<close> was built once and nothing refers to it any more.\<close>

definition gone :: "nat \<Rightarrow> system \<Rightarrow> bool" where
  "gone i s = (i < next_oid s \<and> i \<notin> set (live_oids s))"

section \<open>Example requests\<close>

text \<open>
  Stand-ins for the library calls at the inputs of the examples below. The multipart
  parser returns the given parts whatever the bytes; \<open>fx_json_loads\<close> knows the texts
  \<^verbatim>\<open>{}\<close> and \<^verbatim>\<open>[1]\<close> and rejects the rest, among them \<^verbatim>\<open>{\<close>; the digest is SHA-256 at the
  bytes of \<^verbatim>\<open>abcd1234\<close>, the ISO texts are those of 100 and 101 seconds after the epoch.
\<close>

definition fx_sanitize :: "string \<Rightarrow> string" where
  "fx_sanitize n =
     map (\<lambda>c. if c \<in> set ''abcdefghijklmnopqrstuvwxyzABCDEFGHIJKLMNOPQRSTUVWXYZ0123456789_-''
              then c else CHR ''_'') n"

definition fx_json_loads :: "pyval \<Rightarrow> error + pyval" where
  "fx_json_loads v =
     (if v = PStr ''{}'' then Inr (PDict [])
      else if v = PStr ''[1]'' then Inr (PList [PInt 1])
      else Inl ValueError)"

definition fx_dump :: bytes where
  "fx_dump = [97, 98, 99, 100, 49, 50, 51, 52]"

definition fx_digest :: string where
  "fx_digest = ''e9cee71ab932fde863338d08be4de9dfe39ea049bdafb342ce659ec5450b69ae''"

definition fx_isoformat :: "datetime \<Rightarrow> string" where
  "fx_isoformat t =
     (if t = 100000000 then ''1970-01-01T00:01:40+00:00''
      else if t = 101000000 then ''1970-01-01T00:01:41+00:00''
      else [])"

definition fx_libs :: "fs_item list \<Rightarrow> throttle_result \<Rightarrow> libs" where
  "fx_libs items r =
     \<lparr>zlib_decompress = (\<lambda>b. None),
      FieldStorage = (\<lambda>data ct n. Inr items),
      json_loads = fx_json_loads,
      sha256_hexdigest = (\<lambda>b. if b = fx_dump then fx_digest else []),
      sanitize_dump_name = fx_sanitize,
      throttle = (\<lambda>d. (r, ''fixture_rule'', PInt 100)),
      validate_crash_id = (\<lambda>v. case v of PStr u \<Rightarrow> length u = 36 | _ \<Rightarrow> False),
      create_crash_id = (\<lambda>t r. ''de1bb258-cbbf-4589-a673-34f800160918''),
      isoformat = fx_isoformat,
      builtin_str = (\<lambda>v. [])\<rparr>"

definition fx_request :: request where
  "fx_request =
     \<lparr>content_type = Some ''multipart/form-data; boundary=xYzZY'', content_length = Some 3,
      http_content_encoding = None, stream = [1, 2, 3]\<rparr>"

definition fx_clock :: clock where
  "fx_clock = \<lparr>time_time = 100, utc_now = 101000000\<rparr>"

definition text_part :: "string \<Rightarrow> string \<Rightarrow> fs_item" where
  "text_part n v = \<lparr>fs_name = Some n, fs_type = ''text/plain'', fs_value = PStr v\<rparr>"

definition dump_part :: "string \<Rightarrow> bytes \<Rightarrow> fs_item" where
  "dump_part n b = \<lparr>fs_name = Some n, fs_type = ''application/octet-stream'', fs_value = PBytes b\<rparr>"

definition json_part :: "string \<Rightarrow> fs_item" where
  "json_part v = \<lparr>fs_name = Some ''extra'', fs_type = ''application/json'', fs_value = PStr v\<rparr>"

text \<open>The first scenario of the specification: one text field and the minidump.\<close>

definition fx_parts :: "fs_item list" where
  "fx_parts = [text_part ''ProductName'' ''Firefox'', dump_part ''upload_file_minidump'' fx_dump]"

definition fx_report :: crash_report where
  "fx_report = set_state (CrashReport [(''ProductName'', PStr ''Firefox'')] [] (PStr ''id'')) STATE_SAVE"

text \<open>A worker holds the example report after \<open>e\<close> failed attempts.\<close>

definition fx_holding :: "int \<Rightarrow> system" where
  "fx_holding e =
     \<lparr>crashmover_queue = [], held = [(0, fx_report\<lparr>errors := e\<rparr>)], calls = [], next_oid = 1\<rparr>"

text \<open>
  The first scenario sent by a client that attaches the minidump as a plain field: the
  part has the media type of a dump and no filename, so \<^verbatim>\<open>cgi\<close> hands its value over as
  text.
\<close>

definition fx_text_dump_parts :: "fs_item list" where
  "fx_text_dump_parts =
     [text_part ''ProductName'' ''Firefox'',
      \<lparr>fs_name = Some ''upload_file_minidump'', fs_type = ''application/octet-stream'',
       fs_value = PStr ''abcd1234''\<rparr>]"

text \<open>What the handler makes of the first scenario under each throttle result.\<close>

definition fx_annotations :: "throttle_result \<Rightarrow> pydict" where
  "fx_annotations r =
     [(''ProductName'', PStr ''Firefox''),
      (''submitted_timestamp'', PStr ''1970-01-01T00:01:41+00:00''),
      (''timestamp'', PFloat 100),
      (''dump_checksums'', PDict [(''upload_file_minidump'', PStr fx_digest)]),
      (''MinidumpSha256Hash'', PStr fx_digest),
      (''legacy_processing'', PResult r),
      (''throttle_rate'', PInt 100),
      (''uuid'', PStr ''de1bb258-cbbf-4589-a673-34f800160918''),
      (''type_tag'', PStr ''bp'')]"

definition fx_accepted :: crash_report where
  "fx_accepted =
     \<lparr>raw_crash = fx_annotations ACCEPT,
      dumps = [(''upload_file_minidump'', PBytes fx_dump)],
      crash_id = PStr ''de1bb258-cbbf-4589-a673-34f800160918'',
      errors = 0, state = Some STATE_SAVE\<rparr>"

text \<open>A deployment that names its dump field \<^verbatim>\<open>minidump\<close>, and a client that follows it.\<close>

definition fx_config :: config where
  "fx_config = \<lparr>dump_field = ''minidump'', dump_id_prefix = ''bp-''\<rparr>"

definition fx_minidump_parts :: "fs_item list" where
  "fx_minidump_parts = [text_part ''ProductName'' ''Firefox'', dump_part ''minidump'' fx_dump]"

section \<open>The handler, case by case\<close>

lemma on_post_falsy:
  "extract_payload L req = Inr (rc, ds) \<Longrightarrow> \<not> truthy rc \<Longrightarrow>
   on_post L cfg clk req s = Inr (respond ''Discarded=1'', s)"
  by (simp add: on_post_def)

lemma on_post_accepting:
  "extract_payload L req = Inr (PDict d0, ds) \<Longrightarrow> d0 \<noteq> [] \<Longrightarrow> checksums L ds = Inr cs \<Longrightarrow>
   annotate L cfg clk cs d0 = (result, cid, d) \<Longrightarrow>
   on_post L cfg clk req s = Inr (dispatch L cfg result d ds cid s)"
  by (simp add: on_post_def accept_crash_def)

lemma on_post_Inr_cases:
  assumes "on_post L cfg clk req s = Inr (resp, s')"
  obtains (discard) "resp = respond ''Discarded=1''" and "s' = s"
  | (accept) d0 ds cs result cid d where
      "extract_payload L req = Inr (PDict d0, ds)" and "d0 \<noteq> []" and
      "checksums L ds = Inr cs" and "annotate L cfg clk cs d0 = (result, cid, d)" and
      "(resp, s') = dispatch L cfg result d ds cid s"
proof -
  from assms obtain rc ds where ep: "extract_payload L req = Inr (rc, ds)"
    by (auto simp: on_post_def split: sum.splits)
  show thesis
  proof (cases "truthy rc")
    case False
    with ep assms have "resp = respond ''Discarded=1''" and "s' = s"
      by (simp_all add: on_post_def)
    then show thesis by (rule discard)
  next
    case True
    with ep assms have ac: "accept_crash L cfg clk rc ds s = Inr (resp, s')"
      by (simp add: on_post_def)
    then obtain d0 where rc: "rc = PDict d0"
      by (cases rc) (simp_all add: accept_crash_def)
    from ac rc obtain cs where cs: "checksums L ds = Inr cs"
      by (auto simp: accept_crash_def split: sum.splits)
    obtain result cid d where an: "annotate L cfg clk cs d0 = (result, cid, d)"
      by (cases "annotate L cfg clk cs d0") auto
    from ac rc cs an have "(resp, s') = dispatch L cfg result d ds cid s"
      by (simp add: accept_crash_def)
    moreover from True rc have "d0 \<noteq> []" by simp
    ultimately show thesis using ep rc cs an by (intro accept[of d0 ds cs result cid d]) simp_all
  qed
qed

lemma dispatch_queue:
  "crashmover_queue (snd (dispatch L cfg result d ds cid s)) =
     (if result = REJECT \<or> result = FAKEACCEPT then crashmover_queue s
      else crashmover_queue s @ [(next_oid s, set_state (CrashReport d ds cid) STATE_SAVE)])"
  by (simp add: dispatch_def enqueue_new_def)


lemma on_exception_eq:
  "on_exception cr =
     (if errors cr + 1 < MAX_ATTEMPTS then Some (cr\<lparr>errors := errors cr + 1\<rparr>) else None)"
  by (simp add: on_exception_def Let_def)

lemma attempt_Raised:
  "state cr = Some STATE_SAVE \<or> state cr = Some STATE_PUBLISH \<Longrightarrow>
   crashmover_attempt Raised cr = on_exception cr"
  by (auto simp: crashmover_attempt_def)

lemma attempt_save_Returned:
  "state cr = Some STATE_SAVE \<Longrightarrow>
   crashmover_attempt Returned cr = Some (cr\<lparr>state := Some STATE_PUBLISH, errors := 0\<rparr>)"
  by (simp add: crashmover_attempt_def set_state_def)

lemma attempts_failures:
  "state cr = Some STATE_SAVE \<or> state cr = Some STATE_PUBLISH \<Longrightarrow>
   errors cr < MAX_ATTEMPTS \<Longrightarrow>
   attempts (replicate k Raised) cr =
     (if errors cr + int k < MAX_ATTEMPTS then Some (cr\<lparr>errors := errors cr + int k\<rparr>) else None)"
proof (induction k arbitrary: cr)
  case 0
  then show ?case by simp
next
  case (Suc k)
  let ?cr = "cr\<lparr>errors := errors cr + 1\<rparr>"
  show ?case
  proof (cases "errors cr + 1 < MAX_ATTEMPTS")
    case True
    with Suc.prems have "crashmover_attempt Raised cr = Some ?cr"
      by (simp add: attempt_Raised on_exception_eq)
    moreover from Suc.prems True
    have "attempts (replicate k Raised) ?cr =
            (if errors ?cr + int k < MAX_ATTEMPTS then Some (?cr\<lparr>errors := errors ?cr + int k\<rparr>) else None)"
      by (intro Suc.IH) auto
    ultimately show ?thesis by (simp add: add.assoc)
  next
    case False
    with Suc.prems have "crashmover_attempt Raised cr = None"
      by (simp add: attempt_Raised on_exception_eq)
    with False show ?thesis by simp
  qed
qed

lemma attempts_append:
  "attempts (xs @ ys) cr = (case attempts xs cr of None \<Rightarrow> None | Some cr' \<Rightarrow> attempts ys cr')"
  by (induction xs arbitrary: cr) (auto split: option.splits)

lemma attempt_calls_append:
  "attempt_calls i (xs @ ys) cr =
     attempt_calls i xs cr @ (case attempts xs cr of None \<Rightarrow> [] | Some cr' \<Rightarrow> attempt_calls i ys cr')"
  by (induction xs arbitrary: cr) (auto split: option.splits)

lemma attempt_calls_save_failures:
  "state cr = Some STATE_SAVE \<Longrightarrow> errors cr < MAX_ATTEMPTS \<Longrightarrow>
   attempt_calls i (replicate k Raised) cr =
     replicate (min k (nat (MAX_ATTEMPTS - errors cr))) (SaveCall i Raised)"
proof (induction k arbitrary: cr)
  case 0
  then show ?case by simp
next
  case (Suc k)
  let ?cr = "cr\<lparr>errors := errors cr + 1\<rparr>"
  from Suc.prems have bc: "backend_call i cr Raised = [SaveCall i Raised]"
    by (simp add: backend_call_def)
  show ?case
  proof (cases "errors cr + 1 < MAX_ATTEMPTS")
    case True
    with Suc.prems have "crashmover_attempt Raised cr = Some ?cr"
      by (simp add: attempt_Raised on_exception_eq)
    moreover from Suc.prems True
    have "attempt_calls i (replicate k Raised) ?cr =
            replicate (min k (nat (MAX_ATTEMPTS - errors ?cr))) (SaveCall i Raised)"
      by (intro Suc.IH) auto
    moreover from True have "Suc (min k (nat (MAX_ATTEMPTS - errors ?cr))) = min (Suc k) (nat (MAX_ATTEMPTS - errors cr))"
      by auto
    ultimately show ?thesis using bc by (simp del: min_Suc_Suc) (metis replicate_Suc)
  next
    case False
    with Suc.prems have "crashmover_attempt Raised cr = None"
      by (simp add: attempt_Raised on_exception_eq)
    moreover from False Suc.prems have "min (Suc k) (nat (MAX_ATTEMPTS - errors cr)) = 1" by auto
    ultimately show ?thesis using bc by simp
  qed
qed


lemma run_invariant:
  assumes "P s" and "\<And>a t. P t \<Longrightarrow> P (perform L cfg a t)"
  shows "P (run L cfg acts s)"
  using assms(1) by (induction acts arbitrary: s) (auto intro: assms(2))

lemma run_append: "run L cfg (xs @ ys) s = run L cfg ys (run L cfg xs s)"
  by (induction xs arbitrary: s) auto

lemma perform_Post_cases:
  obtains (same) "perform L cfg (Post clk req) s = s"
  | (new) d ds cid where
      "perform L cfg (Post clk req) s = enqueue_new (set_state (CrashReport d ds cid) STATE_SAVE) s"
proof (cases "on_post L cfg clk req s")
  case (Inl e)
  then have "perform L cfg (Post clk req) s = s" by simp
  then show thesis by (rule same)
next
  case (Inr p)
  obtain resp s' where p: "p = (resp, s')" by (cases p)
  with Inr have op: "on_post L cfg clk req s = Inr (resp, s')" by simp
  then have pf: "perform L cfg (Post clk req) s = s'" by simp
  from op show thesis
  proof (cases rule: on_post_Inr_cases)
    case discard
    with pf show thesis by (intro same) simp
  next
    case (accept d0 ds cs result cid d)
    then have "s' = snd (dispatch L cfg result d ds cid s)" by (metis snd_conv)
    then have "s' = s \<or> s' = enqueue_new (set_state (CrashReport d ds cid) STATE_SAVE) s"
      by (simp add: dispatch_def)
    with pf show thesis using same new by metis
  qed
qed

lemma find_held:
  "distinct (map fst xs) \<Longrightarrow> (i, cr) \<in> set xs \<Longrightarrow> find (\<lambda>x. fst x = i) xs = Some (i, cr)"
  by (induction xs) (auto simp: rev_image_eqI)

lemma find_SomeD: "find P xs = Some x \<Longrightarrow> x \<in> set xs \<and> P x"
  by (induction xs) (auto split: if_splits)

subsection \<open>Identities stay apart\<close>

lemma wf_enqueue_new: "wf_system s \<Longrightarrow> wf_system (enqueue_new cr s)"
  by (auto simp: wf_system_def live_oids_def enqueue_new_def list_all_iff less_Suc_eq)

lemma live_oids_popleft:
  "live_oids (popleft s) =
     (case crashmover_queue s of
        [] \<Rightarrow> live_oids s
      | x # q \<Rightarrow> map fst q @ map fst (held s) @ [fst x])"
  by (simp add: live_oids_def popleft_def split: list.splits)

lemma rotate_ok:
  "distinct (a # A @ B) \<Longrightarrow> list_all P (a # A @ B) \<Longrightarrow>
   distinct (A @ B @ [a]) \<and> list_all P (A @ B @ [a])"
  by auto

lemma wf_popleft: "wf_system s \<Longrightarrow> wf_system (popleft s)"
proof (cases "crashmover_queue s")
  case Nil
  assume "wf_system s"
  with Nil show ?thesis by (simp add: popleft_def)
next
  case (Cons x q)
  assume "wf_system s"
  with Cons have "distinct (fst x # map fst q @ map fst (held s))"
    and "list_all (\<lambda>i. i < next_oid s) (fst x # map fst q @ map fst (held s))"
    by (simp_all add: wf_system_def live_oids_def)
  from rotate_ok[OF this] Cons show ?thesis
    by (simp add: wf_system_def live_oids_popleft) (simp add: popleft_def)
qed

lemma map_fst_remove1:
  "distinct (map fst xs) \<Longrightarrow> x \<in> set xs \<Longrightarrow> map fst (remove1 x xs) = remove1 (fst x) (map fst xs)"
proof (induction xs)
  case Nil
  then show ?case by simp
next
  case (Cons y ys)
  show ?case
  proof (cases "x = y")
    case True
    then show ?thesis by simp
  next
    case False
    with Cons.prems have xin: "x \<in> set ys" by simp
    then have "fst x \<in> set (map fst ys)" by (rule imageI[of x "set ys" fst, simplified set_map[symmetric]])
    moreover from Cons.prems have "fst y \<notin> set (map fst ys)" by simp
    ultimately have "fst x \<noteq> fst y" by metis
    with False Cons xin show ?thesis by simp
  qed
qed

lemma requeue_ok:
  "distinct (A @ B) \<Longrightarrow> list_all P (A @ B) \<Longrightarrow> i \<in> set B \<Longrightarrow>
   distinct (A @ remove1 i B) \<and> list_all P (A @ remove1 i B) \<and>
   distinct ((A @ [i]) @ remove1 i B) \<and> list_all P ((A @ [i]) @ remove1 i B) \<and>
   i \<notin> set (A @ remove1 i B)"
  by (auto simp: list_all_iff dest: notin_set_remove1)

lemma live_oids_complete:
  assumes "distinct (map fst (held s))" and "find (\<lambda>x. fst x = i) (held s) = Some x"
  shows "live_oids (complete i out s) =
     (case crashmover_attempt out (snd x) of
        None \<Rightarrow> map fst (crashmover_queue s) @ remove1 i (map fst (held s))
      | Some cr' \<Rightarrow> (map fst (crashmover_queue s) @ [i]) @ remove1 i (map fst (held s)))"
proof -
  from assms(2) have "x \<in> set (held s)" and "fst x = i" by (auto dest: find_SomeD)
  with map_fst_remove1[OF assms(1)] have "map fst (remove1 x (held s)) = remove1 i (map fst (held s))"
    by auto
  with assms(2) show ?thesis
    by (simp add: live_oids_def complete_def split: option.splits)
qed

lemma wf_complete: "wf_system s \<Longrightarrow> wf_system (complete i out s)"
proof (cases "find (\<lambda>x. fst x = i) (held s)")
  case None
  assume "wf_system s"
  with None show ?thesis by (simp add: complete_def)
next
  case (Some x)
  assume wf: "wf_system s"
  from Some have "x \<in> set (held s)" and "fst x = i" by (auto dest: find_SomeD)
  then have iin: "i \<in> set (map fst (held s))" by auto
  from wf have d: "distinct (map fst (crashmover_queue s) @ map fst (held s))"
    and l: "list_all (\<lambda>i. i < next_oid s) (map fst (crashmover_queue s) @ map fst (held s))"
    by (simp_all add: wf_system_def live_oids_def)
  from d have dh: "distinct (map fst (held s))" by simp
  have nx: "next_oid (complete i out s) = next_oid s"
    by (simp add: complete_def split: option.splits)
  from requeue_ok[OF d l iin] show ?thesis
    unfolding wf_system_def live_oids_complete[OF dh Some] nx
    by (cases "crashmover_attempt out (snd x)") simp_all
qed

lemma wf_perform: "wf_system s \<Longrightarrow> wf_system (perform L cfg a s)"
proof (cases a)
  case (Post clk req)
  assume "wf_system s"
  then show ?thesis unfolding Post
    by (cases rule: perform_Post_cases[of L cfg clk req s]) (simp_all add: wf_enqueue_new)
qed (simp_all add: wf_popleft wf_complete)

lemma wf_init: "wf_system init_system"
  by (simp add: wf_system_def init_system_def live_oids_def)

lemma wf_run: "wf_system (run L cfg acts init_system)"
  by (rule run_invariant[where P = wf_system]) (simp_all add: wf_init wf_perform)


subsection \<open>A dropped report stays out\<close>

lemma gone_enqueue_new: "gone i s \<Longrightarrow> gone i (enqueue_new cr s)"
  by (auto simp: gone_def live_oids_def enqueue_new_def)

lemma gone_popleft: "gone i s \<Longrightarrow> gone i (popleft s)"
proof -
  assume g: "gone i s"
  have "next_oid (popleft s) = next_oid s" by (simp add: popleft_def split: list.splits)
  moreover have "set (live_oids (popleft s)) = set (live_oids s)"
    unfolding live_oids_popleft by (cases "crashmover_queue s") (auto simp: live_oids_def)
  ultimately show ?thesis using g by (simp add: gone_def)
qed

lemma live_oids_complete_subset: "set (live_oids (complete j out s)) \<subseteq> set (live_oids s)"
proof (cases "find (\<lambda>x. fst x = j) (held s)")
  case None
  then show ?thesis by (simp add: complete_def)
next
  case (Some x)
  then have "x \<in> set (held s)" and "fst x = j" by (auto dest: find_SomeD)
  then have "j \<in> set (map fst (held s))" by auto
  moreover have "set (map fst (remove1 x (held s))) \<subseteq> set (map fst (held s))"
    using set_remove1_subset[of x "held s"] by auto
  ultimately show ?thesis using Some
    by (cases "crashmover_attempt out (snd x)") (auto simp: complete_def live_oids_def)
qed

lemma gone_complete: "gone i s \<Longrightarrow> gone i (complete j out s)"
proof -
  assume g: "gone i s"
  have "next_oid (complete j out s) = next_oid s" by (simp add: complete_def split: option.splits)
  with g live_oids_complete_subset[of j out s] show ?thesis by (auto simp: gone_def)
qed

lemma gone_perform: "gone i s \<Longrightarrow> gone i (perform L cfg a s)"
proof (cases a)
  case (Post clk req)
  assume "gone i s"
  then show ?thesis unfolding Post
    by (cases rule: perform_Post_cases[of L cfg clk req s]) (simp_all add: gone_enqueue_new)
qed (simp_all add: gone_popleft gone_complete)

lemma gone_run: "gone i s \<Longrightarrow> gone i (run L cfg acts s)"
  by (rule run_invariant[where P = "gone i"]) (simp_all add: gone_perform)

lemma complete_drop_gone:
  assumes wf: "wf_system s" and h: "(i, cr) \<in> set (held s)"
    and none: "crashmover_attempt out cr = None"
  shows "gone i (complete i out s)"
proof -
  from wf have d: "distinct (map fst (crashmover_queue s) @ map fst (held s))"
    and l: "list_all (\<lambda>i. i < next_oid s) (map fst (crashmover_queue s) @ map fst (held s))"
    by (simp_all add: wf_system_def live_oids_def)
  from d have dh: "distinct (map fst (held s))" by simp
  from find_held[OF dh h] have f: "find (\<lambda>x. fst x = i) (held s) = Some (i, cr)" .
  from h have iin: "i \<in> set (map fst (held s))" by force
  with l have "i < next_oid s" by (auto simp: list_all_iff)
  moreover have "next_oid (complete i out s) = next_oid s"
    by (simp add: complete_def split: option.splits)
  moreover from requeue_ok[OF d l iin] none
  have "i \<notin> set (live_oids (complete i out s))"
    unfolding live_oids_complete[OF dh f] by simp
  ultimately show ?thesis by (simp add: gone_def)
qed

lemma complete_queue:
  assumes wf: "wf_system s" and h: "(i, cr) \<in> set (held s)"
  shows "crashmover_queue (complete i out s) =
     crashmover_queue s @ (case crashmover_attempt out cr of None \<Rightarrow> [] | Some cr' \<Rightarrow> [(i, cr')])"
    and "calls (complete i out s) = calls s @ backend_call i cr out"
proof -
  from wf have "distinct (map fst (held s))" by (simp add: wf_system_def live_oids_def)
  from find_held[OF this h] show "crashmover_queue (complete i out s) =
     crashmover_queue s @ (case crashmover_attempt out cr of None \<Rightarrow> [] | Some cr' \<Rightarrow> [(i, cr')])"
    and "calls (complete i out s) = calls s @ backend_call i cr out"
    by (simp_all add: complete_def)
qed

text \<open>
  The retry discipline for an exception the worker catches. When the save or publish call
  of a held report raises an \<^verbatim>\<open>Exception\<close>, the worker counts the error and, if the new count
  is below \<^verbatim>\<open>MAX_ATTEMPTS\<close> = 20, appends the report to the tail of the queue with its state
  as it was; otherwise the report is dropped, and no later action of any run brings it
  back. The ceiling is per state: after fewer than 20 failed saves and one that returns,
  the count starts again, so up to 19 failed publishes leave the report alive and the 20th
  drops it; 20 failed saves in a row drop it at once.
\<close>

theorem crashmover_retry_ceiling:
  "MAX_ATTEMPTS = 20 \<and>
   (wf_system s \<and> (i, cr) \<in> set (held s) \<and>
      (state cr = Some STATE_SAVE \<or> state cr = Some STATE_PUBLISH) \<longrightarrow>
      crashmover_queue (complete i Raised s) =
        (if errors cr + 1 < 20 then crashmover_queue s @ [(i, cr\<lparr>errors := errors cr + 1\<rparr>)]
         else crashmover_queue s) \<and>
      (\<not> errors cr + 1 < 20 \<longrightarrow> i \<notin> set (live_oids (run L cfg acts (complete i Raised s))))) \<and>
   (state cr0 = Some STATE_SAVE \<and> errors cr0 = 0 \<and> k < 20 \<and> j \<le> 20 \<longrightarrow>
      attempts (replicate 20 Raised) cr0 = None \<and>
      attempts (replicate k Raised) cr0 = Some (cr0\<lparr>errors := int k\<rparr>) \<and>
      attempts (replicate k Raised @ Returned # replicate j Raised) cr0 =
        (if j < 20 then Some (cr0\<lparr>state := Some STATE_PUBLISH, errors := int j\<rparr>) else None))"
proof (intro conjI impI)
  show "MAX_ATTEMPTS = 20" by (simp add: MAX_ATTEMPTS_def)
next
  assume a: "wf_system s \<and> (i, cr) \<in> set (held s) \<and>
      (state cr = Some STATE_SAVE \<or> state cr = Some STATE_PUBLISH)"
  then have att: "crashmover_attempt Raised cr =
      (if errors cr + 1 < 20 then Some (cr\<lparr>errors := errors cr + 1\<rparr>) else None)"
    by (simp add: attempt_Raised on_exception_eq MAX_ATTEMPTS_def)
  from a complete_queue(1)[of s i cr Raised] att
  show "crashmover_queue (complete i Raised s) =
        (if errors cr + 1 < 20 then crashmover_queue s @ [(i, cr\<lparr>errors := errors cr + 1\<rparr>)]
         else crashmover_queue s)"
    by simp
  assume "\<not> errors cr + 1 < 20"
  with att have "crashmover_attempt Raised cr = None" by simp
  with a have "gone i (complete i Raised s)" by (intro complete_drop_gone) auto
  then have "gone i (run L cfg acts (complete i Raised s))" by (rule gone_run)
  then show "i \<notin> set (live_oids (run L cfg acts (complete i Raised s)))" by (simp add: gone_def)
next
  assume b: "state cr0 = Some STATE_SAVE \<and> errors cr0 = 0 \<and> k < 20 \<and> j \<le> 20"
  then have f: "\<And>n. attempts (replicate n Raised) cr0 =
      (if int n < 20 then Some (cr0\<lparr>errors := int n\<rparr>) else None)"
    using attempts_failures[of cr0] by (simp add: MAX_ATTEMPTS_def)
  from f[of 20] show "attempts (replicate 20 Raised) cr0 = None" by simp
  from f[of k] b show k: "attempts (replicate k Raised) cr0 = Some (cr0\<lparr>errors := int k\<rparr>)" by simp
  let ?p = "cr0\<lparr>state := Some STATE_PUBLISH, errors := 0\<rparr>"
  from b have "crashmover_attempt Returned (cr0\<lparr>errors := int k\<rparr>) = Some ?p"
    by (simp add: attempt_save_Returned)
  moreover have "attempts (replicate j Raised) ?p =
      (if errors ?p + int j < MAX_ATTEMPTS then Some (?p\<lparr>errors := errors ?p + int j\<rparr>) else None)"
    by (rule attempts_failures) (simp_all add: MAX_ATTEMPTS_def)
  ultimately show "attempts (replicate k Raised @ Returned # replicate j Raised) cr0 =
        (if j < 20 then Some (cr0\<lparr>state := Some STATE_PUBLISH, errors := int j\<rparr>) else None)"
    using k by (simp add: attempts_append MAX_ATTEMPTS_def)
qed


subsection \<open>What the handler appends\<close>

lemma on_post_enqueued:
  assumes "on_post L cfg clk req s = Inr (resp, s')" and "enqueued s s' = Some cr"
  obtains d0 ds cs result cid d where
    "extract_payload L req = Inr (PDict d0, ds)" and "d0 \<noteq> []" and
    "checksums L ds = Inr cs" and "annotate L cfg clk cs d0 = (result, cid, d)" and
    "result \<noteq> REJECT" and "result \<noteq> FAKEACCEPT" and
    "cr = set_state (CrashReport d ds cid) STATE_SAVE" and "s' = enqueue_new cr s"
  using assms(1)
proof (cases rule: on_post_Inr_cases)
  case discard
  with assms(2) show thesis by (simp add: enqueued_def)
next
  case (accept d0 ds cs result cid d)
  from accept(5) have s': "s' = snd (dispatch L cfg result d ds cid s)" by (metis snd_conv)
  show thesis
  proof (cases "result = REJECT \<or> result = FAKEACCEPT")
    case True
    with s' have "s' = s" by (auto simp: dispatch_def)
    with assms(2) show thesis by (simp add: enqueued_def)
  next
    case False
    with s' have e: "s' = enqueue_new (set_state (CrashReport d ds cid) STATE_SAVE) s"
      by (simp add: dispatch_def)
    with assms(2) have "cr = set_state (CrashReport d ds cid) STATE_SAVE"
      by (simp add: enqueued_def enqueue_new_def)
    with accept False e show thesis by (intro that[of d0 ds cs result cid d]) simp_all
  qed
qed

lemma on_post_enqueued_fresh:
  assumes "on_post L cfg clk req s = Inr (resp, s')" and "enqueued s s' = Some cr"
  shows "state cr = Some STATE_SAVE \<and> errors cr = 0 \<and>
         crashmover_queue s' = crashmover_queue s @ [(next_oid s, cr)]"
  using assms by (cases rule: on_post_enqueued) (simp add: set_state_def CrashReport_def enqueue_new_def)

subsection \<open>The error count of a queued report\<close>

lemma attempt_errors:
  "crashmover_attempt out cr = Some cr' \<Longrightarrow> errors cr' < MAX_ATTEMPTS"
  by (cases out)
     (auto simp: crashmover_attempt_def set_state_def on_exception_eq MAX_ATTEMPTS_def
           split: if_splits)

lemma attempt_transition:
  "crashmover_attempt out cr = Some cr' \<Longrightarrow> state cr' \<noteq> state cr \<Longrightarrow> errors cr' = 0"
  by (cases out)
     (auto simp: crashmover_attempt_def set_state_def on_exception_eq split: if_splits)

lemma attempt_at_ceiling:
  "MAX_ATTEMPTS \<le> errors cr + 1 \<Longrightarrow> crashmover_attempt Raised cr = None"
  by (simp add: crashmover_attempt_def on_exception_eq)

lemma bounded_enqueue_new:
  "errors_bounded s \<Longrightarrow> errors cr < MAX_ATTEMPTS \<Longrightarrow> errors_bounded (enqueue_new cr s)"
  by (simp add: errors_bounded_def enqueue_new_def)

lemma bounded_popleft: "errors_bounded s \<Longrightarrow> errors_bounded (popleft s)"
  by (auto simp: errors_bounded_def popleft_def split: list.splits)

lemma bounded_complete: "errors_bounded s \<Longrightarrow> errors_bounded (complete i out s)"
proof (cases "find (\<lambda>x. fst x = i) (held s)")
  case None
  assume "errors_bounded s"
  with None show ?thesis by (simp add: complete_def)
next
  case (Some x)
  assume b: "errors_bounded s"
  have "set (remove1 x (held s)) \<subseteq> set (held s)" by (rule set_remove1_subset)
  with b have "list_all (\<lambda>x. errors (snd x) < MAX_ATTEMPTS) (remove1 x (held s))"
    by (auto simp: errors_bounded_def list_all_iff)
  with b Some show ?thesis
    by (cases "crashmover_attempt out (snd x)")
       (simp_all add: errors_bounded_def complete_def attempt_errors)
qed

lemma bounded_perform: "errors_bounded s \<Longrightarrow> errors_bounded (perform L cfg a s)"
proof (cases a)
  case (Post clk req)
  assume "errors_bounded s"
  then show ?thesis unfolding Post
    by (cases rule: perform_Post_cases[of L cfg clk req s])
       (simp_all add: bounded_enqueue_new set_state_def MAX_ATTEMPTS_def)
qed (simp_all add: bounded_popleft bounded_complete)

lemma bounded_run: "errors_bounded (run L cfg acts init_system)"
  by (rule run_invariant[where P = errors_bounded])
     (simp_all add: bounded_perform, simp add: errors_bounded_def init_system_def)

text \<open>
  Claim C9. In every state a run reaches from the empty resource, each report in the
  queue has \<open>errors < MAX_ATTEMPTS\<close>. Whatever a worker puts back has its count below the
  ceiling, and a count of zero if its state changed; a failure that would bring the count
  to the ceiling puts nothing back; \<^verbatim>\<open>set_state\<close> resets the count, and so the report the
  handler enqueues starts at zero.
\<close>

theorem queued_errors_below_max:
  "(\<forall>x \<in> set (crashmover_queue (run L cfg acts init_system)). errors (snd x) < MAX_ATTEMPTS) \<and>
   (crashmover_attempt out cr = Some cr' \<longrightarrow>
      errors cr' < MAX_ATTEMPTS \<and> (state cr' \<noteq> state cr \<longrightarrow> errors cr' = 0)) \<and>
   (MAX_ATTEMPTS \<le> errors cr + 1 \<longrightarrow> crashmover_attempt Raised cr = None) \<and>
   errors (set_state cr st) = 0 \<and>
   (on_post L cfg clk req s = Inr (resp, s') \<and> enqueued s s' = Some cr1 \<longrightarrow> errors cr1 = 0)"
proof (intro conjI impI ballI)
  fix x assume "x \<in> set (crashmover_queue (run L cfg acts init_system))"
  with bounded_run[of L cfg acts] show "errors (snd x) < MAX_ATTEMPTS"
    by (simp add: errors_bounded_def list_all_iff)
next
  assume "crashmover_attempt out cr = Some cr'"
  then show "errors cr' < MAX_ATTEMPTS" by (rule attempt_errors)
next
  assume "crashmover_attempt out cr = Some cr'" and "state cr' \<noteq> state cr"
  then show "errors cr' = 0" by (rule attempt_transition)
next
  assume "MAX_ATTEMPTS \<le> errors cr + 1"
  then show "crashmover_attempt Raised cr = None" by (rule attempt_at_ceiling)
next
  show "errors (set_state cr st) = 0" by (simp add: set_state_def)
next
  assume "on_post L cfg clk req s = Inr (resp, s') \<and> enqueued s s' = Some cr1"
  then show "errors cr1 = 0" using on_post_enqueued_fresh by blast
qed

subsection \<open>Save comes before publish\<close>

lemma saved_first_snoc:
  "saved_first b (cs @ [c]) =
     (saved_first b cs \<and>
      (case c of PublishCall i out \<Rightarrow> SaveCall i Returned \<in> set (b @ cs) | _ \<Rightarrow> True))"
  by (induction cs arbitrary: b) (auto split: call.splits)

lemma saved_first_split:
  "saved_first b cs \<Longrightarrow> cs = pre @ PublishCall i out # post \<Longrightarrow>
   SaveCall i Returned \<in> set (b @ pre)"
proof (induction pre arbitrary: b cs)
  case Nil
  then show ?case by auto
next
  case (Cons c pre)
  then obtain cs' where cs: "cs = c # cs'" and cs': "cs' = pre @ PublishCall i out # post" by auto
  with Cons.prems have "saved_first (b @ [c]) cs'" by simp
  from Cons.IH[OF this cs'] show ?case by simp
qed

lemma ready_enqueue_new:
  "publish_ready s \<Longrightarrow> state cr = Some STATE_SAVE \<Longrightarrow> publish_ready (enqueue_new cr s)"
  by (simp add: publish_ready_def enqueue_new_def STATE_SAVE_def STATE_PUBLISH_def)

lemma ready_popleft: "publish_ready s \<Longrightarrow> publish_ready (popleft s)"
  by (auto simp: publish_ready_def popleft_def split: list.splits)

lemma attempt_to_publish:
  "crashmover_attempt out cr = Some cr' \<Longrightarrow> state cr' = Some STATE_PUBLISH \<Longrightarrow>
   state cr = Some STATE_PUBLISH \<or> (state cr = Some STATE_SAVE \<and> out = Returned)"
  by (cases out)
     (auto simp: crashmover_attempt_def set_state_def on_exception_eq split: if_splits)

lemma ready_complete:
  assumes r: "publish_ready s" and o: "saved_first [] (calls s)"
  shows "publish_ready (complete i out s) \<and> saved_first [] (calls (complete i out s))"
proof (cases "find (\<lambda>x. fst x = i) (held s)")
  case None
  with assms show ?thesis by (simp add: complete_def)
next
  case (Some x)
  then have xin: "x \<in> set (held s)" and fx: "fst x = i" by (auto dest: find_SomeD)
  let ?cs = "calls s @ backend_call i (snd x) out"
  have cs: "calls (complete i out s) = ?cs" using Some by (simp add: complete_def)
  from r xin fx have pub: "state (snd x) = Some STATE_PUBLISH \<Longrightarrow> SaveCall i Returned \<in> set (calls s)"
    by (auto simp: publish_ready_def list_all_iff)
  have ord: "saved_first [] ?cs"
    using o pub by (auto simp: backend_call_def saved_first_snoc)
  have old: "list_all (\<lambda>y. state (snd y) = Some STATE_PUBLISH \<longrightarrow> SaveCall (fst y) Returned \<in> set ?cs)
               (crashmover_queue s @ remove1 x (held s))"
    using r set_remove1_subset[of x "held s"] by (auto simp: publish_ready_def list_all_iff)
  have new: "\<And>cr'. crashmover_attempt out (snd x) = Some cr' \<Longrightarrow> state cr' = Some STATE_PUBLISH \<Longrightarrow>
               SaveCall i Returned \<in> set ?cs"
  proof -
    fix cr' assume "crashmover_attempt out (snd x) = Some cr'" and "state cr' = Some STATE_PUBLISH"
    from attempt_to_publish[OF this] pub show "SaveCall i Returned \<in> set ?cs"
      by (auto simp: backend_call_def)
  qed
  have "publish_ready (complete i out s)"
    using Some old new
    by (cases "crashmover_attempt out (snd x)") (auto simp: publish_ready_def complete_def)
  with ord cs show ?thesis by simp
qed

lemma ready_perform:
  assumes "publish_ready s \<and> saved_first [] (calls s)"
  shows "publish_ready (perform L cfg a s) \<and> saved_first [] (calls (perform L cfg a s))"
proof (cases a)
  case (Post clk req)
  show ?thesis unfolding Post using assms
    by (cases rule: perform_Post_cases[of L cfg clk req s])
       (simp_all add: ready_enqueue_new set_state_def, simp add: enqueue_new_def)
next
  case Pop
  with assms show ?thesis by (simp add: ready_popleft) (simp add: popleft_def split: list.splits)
next
  case (Complete i out)
  with assms show ?thesis by (simp add: ready_complete)
qed

lemma ready_run:
  "publish_ready (run L cfg acts init_system) \<and> saved_first [] (calls (run L cfg acts init_system))"
  by (rule run_invariant[where P = "\<lambda>s. publish_ready s \<and> saved_first [] (calls s)"])
     (simp add: publish_ready_def init_system_def, rule ready_perform)

text \<open>
  Claim C3. In the calls of any run from the empty resource, a call of
  \<^verbatim>\<open>publish_crash\<close> for a report comes after a call of \<^verbatim>\<open>save_crash\<close> for the same report that
  returned. The handler enqueues in state \<^verbatim>\<open>save\<close> only, and a worker hands back a report in
  state \<^verbatim>\<open>publish\<close> only if it was there already or its save returned. A report whose
  first 20 saves raise is dropped: whatever the backends would do next, the calls made for
  it are those 20 saves and no publish.
\<close>

theorem publish_only_after_save:
  "(calls (run L cfg acts init_system) = pre @ PublishCall i out # post \<longrightarrow>
      SaveCall i Returned \<in> set pre) \<and>
   (on_post L cfg clk req s = Inr (resp, s') \<and> enqueued s s' = Some cr \<longrightarrow>
      state cr = Some STATE_SAVE) \<and>
   (crashmover_attempt out' cr1 = Some cr2 \<and> state cr2 = Some STATE_PUBLISH \<longrightarrow>
      state cr1 = Some STATE_PUBLISH \<or> (state cr1 = Some STATE_SAVE \<and> out' = Returned)) \<and>
   (state cr0 = Some STATE_SAVE \<and> errors cr0 = 0 \<longrightarrow>
      attempts (replicate 20 Raised @ outs) cr0 = None \<and>
      attempt_calls j (replicate 20 Raised @ outs) cr0 = replicate 20 (SaveCall j Raised))"
proof (intro conjI impI)
  assume "calls (run L cfg acts init_system) = pre @ PublishCall i out # post"
  with ready_run[of L cfg acts] saved_first_split[of "[]" _ pre i out post]
  show "SaveCall i Returned \<in> set pre" by simp
next
  assume "on_post L cfg clk req s = Inr (resp, s') \<and> enqueued s s' = Some cr"
  then show "state cr = Some STATE_SAVE" using on_post_enqueued_fresh by blast
next
  assume "crashmover_attempt out' cr1 = Some cr2 \<and> state cr2 = Some STATE_PUBLISH"
  then show "state cr1 = Some STATE_PUBLISH \<or> (state cr1 = Some STATE_SAVE \<and> out' = Returned)"
    using attempt_to_publish by blast
next
  assume a: "state cr0 = Some STATE_SAVE \<and> errors cr0 = 0"
  then have n: "attempts (replicate 20 Raised) cr0 = None"
    using attempts_failures[of cr0 20] by (simp add: MAX_ATTEMPTS_def)
  then show "attempts (replicate 20 Raised @ outs) cr0 = None" by (simp add: attempts_append)
  from a have "attempt_calls j (replicate 20 Raised) cr0 = replicate 20 (SaveCall j Raised)"
    using attempt_calls_save_failures[of cr0 j 20] by (simp add: MAX_ATTEMPTS_def)
  with n show "attempt_calls j (replicate 20 Raised @ outs) cr0 = replicate 20 (SaveCall j Raised)"
    by (simp add: attempt_calls_append)
qed


section \<open>The parser against its specification\<close>

subsection \<open>Headers\<close>

lemma split_once_none:
  "dropWhile (\<lambda>x. x \<noteq> c) s = [] \<Longrightarrow> split_once c s = [takeWhile (\<lambda>x. x \<noteq> c) s]"
  by (simp add: split_once_def Let_def del: dropWhile_eq_Nil_conv)

lemma split_once_some:
  "dropWhile (\<lambda>x. x \<noteq> c) s = x # ps \<Longrightarrow> split_once c s = [takeWhile (\<lambda>x. x \<noteq> c) s, ps]"
  by (simp add: split_once_def Let_def del: dropWhile_eq_Nil_conv)

lemma extract_payload_header_malformed:
  assumes "header_malformed req"
  shows "extract_payload L req = empty_crash"
proof (cases "content_type req")
  case None
  then show ?thesis by (simp add: extract_payload_def)
next
  case (Some ct)
  show ?thesis
  proof (cases "dropWhile (\<lambda>x. x \<noteq> CHR '';'') ct")
    case Nil
    then have "split_once CHR '';'' ct = [takeWhile (\<lambda>x. x \<noteq> CHR '';'') ct]"
      by (rule split_once_none)
    with Some show ?thesis by (simp add: extract_payload_def)
  next
    case (Cons x ps)
    then have sp: "map py_strip (split_once CHR '';'' ct) = [media_type ct, py_strip ps]"
      by (simp add: split_once_some media_type_def)
    from assms Some Cons
    have "ct = [] \<or> media_type ct \<noteq> ''multipart/form-data'' \<or> \<not> startswith (py_strip ps) ''boundary=''
          \<or> declared_length req = 0"
      by (simp add: header_malformed_def has_boundary_def)
    with Some sp show ?thesis
      by (auto simp: extract_payload_def declared_length_def Let_def)
  qed
qed

lemma extract_payload_bad_gzip:
  "bad_gzip L req \<Longrightarrow> extract_payload L req = empty_crash"
  by (simp add: bad_gzip_def is_gzip_def extract_payload_def declared_length_def Let_def empty_crash_def
        split: option.splits list.splits)

lemma extract_payload_body:
  assumes "\<not> header_malformed req" and "\<not> bad_gzip L req"
  shows "extract_payload L req =
     (case body_items L req of
        Inl e \<Rightarrow> Inl e
      | Inr items \<Rightarrow>
          (case extract_items L items empty_acc of
             Inl e \<Rightarrow> Inl e
           | Inr a \<Rightarrow>
               if has_json a \<and> has_kvpairs a then empty_crash
               else Inr (acc_raw_crash a, acc_dumps a)))"
proof -
  from assms(1) obtain ct where ct: "content_type req = Some ct" and ne: "ct \<noteq> []"
    and mt: "media_type ct = ''multipart/form-data''" and hb: "has_boundary ct"
    and len: "declared_length req \<noteq> 0"
    by (auto simp: header_malformed_def split: option.splits)
  from hb obtain x ps where dw: "dropWhile (\<lambda>x. x \<noteq> CHR '';'') ct = x # ps"
    and bd: "startswith (py_strip ps) ''boundary=''"
    by (auto simp: has_boundary_def split: list.splits)
  from dw mt have sp: "map py_strip (split_once CHR '';'' ct) = [''multipart/form-data'', py_strip ps]"
    by (simp add: split_once_some media_type_def)
  show ?thesis
  proof (cases "is_gzip req")
    case True
    with assms(2) obtain data where "zlib_decompress L (take (declared_length req) (stream req)) = Some data"
      by (auto simp: bad_gzip_def)
    with True ct ne sp bd len show ?thesis
      by (simp add: extract_payload_def body_items_def parse_body_def is_gzip_def
            declared_length_def Let_def)
  next
    case False
    with ct ne sp bd len show ?thesis
      by (simp add: extract_payload_def body_items_def parse_body_def is_gzip_def
            declared_length_def Let_def)
  qed
qed


subsection \<open>The loop over the parts\<close>

lemma startswith_nonempty: "startswith t p \<Longrightarrow> p \<noteq> [] \<Longrightarrow> t \<noteq> []"
  by (auto simp: startswith_def)

lemma part_kinds:
  "is_skipped it \<or> is_json_part it \<or> is_dump_part it \<or> is_text_part it"
  by (auto simp: is_text_part_def)

lemma extract_item_skipped: "is_skipped it \<Longrightarrow> extract_item L it a = Inr a"
  by (simp add: extract_item_def is_skipped_def)

lemma extract_item_json:
  "is_json_part it \<Longrightarrow>
   extract_item L it a =
     (case json_loads L (fs_value it) of
        Inl e \<Rightarrow> Inl e
      | Inr v \<Rightarrow> Inr (a\<lparr>has_json := True, acc_raw_crash := v\<rparr>))"
  using startswith_nonempty[of "fs_type it" "''application/json''"]
  by (auto simp: extract_item_def is_json_part_def is_skipped_def)

lemma extract_item_dump:
  "is_dump_part it \<Longrightarrow>
   extract_item L it a = Inr (a\<lparr>acc_dumps := put_dump L it (acc_dumps a)\<rparr>)"
  by (auto simp: extract_item_def is_dump_part_def is_json_part_def is_skipped_def put_dump_def)

lemma extract_item_text:
  "is_text_part it \<Longrightarrow>
   extract_item L it a =
     (case setitem (acc_raw_crash a) (item_name it) (fs_value it) of
        Inl e \<Rightarrow> Inl e
      | Inr v \<Rightarrow> Inr (a\<lparr>has_kvpairs := True, acc_raw_crash := v\<rparr>))"
  by (auto simp: extract_item_def is_text_part_def is_dump_part_def is_json_part_def is_skipped_def)

lemma part_kinds_apart:
  "is_json_part it \<Longrightarrow> \<not> is_dump_part it \<and> \<not> is_text_part it"
  "is_dump_part it \<Longrightarrow> \<not> is_json_part it \<and> \<not> is_text_part it"
  "is_text_part it \<Longrightarrow> \<not> is_json_part it \<and> \<not> is_dump_part it"
  "is_skipped it \<Longrightarrow> \<not> is_json_part it \<and> \<not> is_dump_part it \<and> \<not> is_text_part it"
  by (auto simp: is_text_part_def is_dump_part_def is_json_part_def)


text \<open>The accumulator after the loop, when every JSON blob loads to an object.\<close>

lemma extract_items_spec:
  assumes "\<forall>it \<in> set items. is_json_part it \<longrightarrow> (\<exists>d. json_loads L (fs_value it) = Inr (PDict d))"
    and "acc_raw_crash a = PDict d0"
  shows "\<exists>a' d'. extract_items L items a = Inr a' \<and> acc_raw_crash a' = PDict d' \<and>
      has_json a' = (has_json a \<or> list_ex is_json_part items) \<and>
      has_kvpairs a' = (has_kvpairs a \<or> list_ex is_text_part items) \<and>
      acc_dumps a' = fold (put_dump L) (filter is_dump_part items) (acc_dumps a) \<and>
      (\<not> list_ex is_json_part items \<longrightarrow>
         d' = fold put_text (filter is_text_part items) d0) \<and>
      (\<not> list_ex is_text_part items \<longrightarrow>
         PDict d' = (if list_ex is_json_part items then loaded L (last (filter is_json_part items))
                     else PDict d0))"
  using assms
proof (induction items arbitrary: a d0)
  case Nil
  then show ?case by simp
next
  case (Cons it items)
  from Cons.prems(1)
  have rest: "\<forall>it \<in> set items. is_json_part it \<longrightarrow> (\<exists>d. json_loads L (fs_value it) = Inr (PDict d))"
    by simp
  note kinds = part_kinds_apart[of it]
  from part_kinds[of it] show ?case
  proof (elim disjE)
    assume k: "is_skipped it"
    from Cons.IH[OF rest Cons.prems(2)] obtain a' d' where
      r: "extract_items L items a = Inr a'" "acc_raw_crash a' = PDict d'"
         "has_json a' = (has_json a \<or> list_ex is_json_part items)"
         "has_kvpairs a' = (has_kvpairs a \<or> list_ex is_text_part items)"
         "acc_dumps a' = fold (put_dump L) (filter is_dump_part items) (acc_dumps a)"
         "\<not> list_ex is_json_part items \<longrightarrow> d' = fold put_text (filter is_text_part items) d0"
         "\<not> list_ex is_text_part items \<longrightarrow>
            PDict d' = (if list_ex is_json_part items then loaded L (last (filter is_json_part items))
                        else PDict d0)"
      by blast
    from k have e: "extract_items L (it # items) a = Inr a'"
      by (simp add: extract_item_skipped r(1))
    show ?thesis
      by (rule exI[of _ a'], rule exI[of _ d']) (use e r kinds(4)[OF k] in simp)
  next
    assume k: "is_json_part it"
    with Cons.prems(1) obtain d where ld: "json_loads L (fs_value it) = Inr (PDict d)" by auto
    let ?a = "a\<lparr>has_json := True, acc_raw_crash := PDict d\<rparr>"
    have "acc_raw_crash ?a = PDict d" by simp
    from Cons.IH[OF rest this] obtain a' d' where
      r: "extract_items L items ?a = Inr a'" "acc_raw_crash a' = PDict d'"
         "has_json a' = (has_json ?a \<or> list_ex is_json_part items)"
         "has_kvpairs a' = (has_kvpairs ?a \<or> list_ex is_text_part items)"
         "acc_dumps a' = fold (put_dump L) (filter is_dump_part items) (acc_dumps ?a)"
         "\<not> list_ex is_text_part items \<longrightarrow>
            PDict d' = (if list_ex is_json_part items then loaded L (last (filter is_json_part items))
                        else PDict d)"
      by blast
    have ne: "(filter is_json_part items = []) = (\<not> list_ex is_json_part items)"
      by (simp add: list_ex_iff filter_empty_conv)
    from k ld have e: "extract_items L (it # items) a = Inr a'"
      by (simp add: extract_item_json r(1))
    from ld have l: "loaded L it = PDict d" by (simp add: loaded_def)
    show ?thesis
      by (rule exI[of _ a'], rule exI[of _ d']) (use e r k l ne kinds(1)[OF k] in simp)
  next
    assume k: "is_dump_part it"
    let ?a = "a\<lparr>acc_dumps := put_dump L it (acc_dumps a)\<rparr>"
    from Cons.prems(2) have "acc_raw_crash ?a = PDict d0" by simp
    from Cons.IH[OF rest this] obtain a' d' where
      r: "extract_items L items ?a = Inr a'" "acc_raw_crash a' = PDict d'"
         "has_json a' = (has_json ?a \<or> list_ex is_json_part items)"
         "has_kvpairs a' = (has_kvpairs ?a \<or> list_ex is_text_part items)"
         "acc_dumps a' = fold (put_dump L) (filter is_dump_part items) (acc_dumps ?a)"
         "\<not> list_ex is_json_part items \<longrightarrow> d' = fold put_text (filter is_text_part items) d0"
         "\<not> list_ex is_text_part items \<longrightarrow>
            PDict d' = (if list_ex is_json_part items then loaded L (last (filter is_json_part items))
                        else PDict d0)"
      by blast
    from k have e: "extract_items L (it # items) a = Inr a'"
      by (simp add: extract_item_dump r(1))
    show ?thesis
      by (rule exI[of _ a'], rule exI[of _ d']) (use e r k kinds(2)[OF k] in simp)
  next
    assume k: "is_text_part it"
    let ?a = "a\<lparr>has_kvpairs := True, acc_raw_crash := PDict (put_text it d0)\<rparr>"
    have "acc_raw_crash ?a = PDict (put_text it d0)" by simp
    from Cons.IH[OF rest this] obtain a' d' where
      r: "extract_items L items ?a = Inr a'" "acc_raw_crash a' = PDict d'"
         "has_json a' = (has_json ?a \<or> list_ex is_json_part items)"
         "has_kvpairs a' = (has_kvpairs ?a \<or> list_ex is_text_part items)"
         "acc_dumps a' = fold (put_dump L) (filter is_dump_part items) (acc_dumps ?a)"
         "\<not> list_ex is_json_part items \<longrightarrow>
            d' = fold put_text (filter is_text_part items) (put_text it d0)"
      by blast
    from k Cons.prems(2) have e: "extract_items L (it # items) a = Inr a'"
      by (simp add: extract_item_text r(1)[unfolded put_text_def])
    show ?thesis
      by (rule exI[of _ a'], rule exI[of _ d']) (use e r k kinds(3)[OF k] in simp)
  qed
qed

lemma extract_payload_accumulated:
  assumes wf: "\<not> header_malformed req" "\<not> bad_gzip L req"
    and items: "body_items L req = Inr items"
    and json: "\<forall>it \<in> set items. is_json_part it \<longrightarrow> (\<exists>d. json_loads L (fs_value it) = Inr (PDict d))"
  shows "extract_payload L req =
     Inr (if mixed_payload items then (PDict [], []) else accumulated L items)"
proof -
  have "acc_raw_crash empty_acc = PDict []" by (simp add: empty_acc_def)
  from extract_items_spec[OF json this] obtain a' d' where
    r: "extract_items L items empty_acc = Inr a'" "acc_raw_crash a' = PDict d'"
       "has_json a' = list_ex is_json_part items" "has_kvpairs a' = list_ex is_text_part items"
       "acc_dumps a' = dumps_of L items"
       "\<not> list_ex is_json_part items \<longrightarrow> d' = fold put_text (filter is_text_part items) []"
       "\<not> list_ex is_text_part items \<longrightarrow>
          PDict d' = (if list_ex is_json_part items then loaded L (last (filter is_json_part items))
                      else PDict [])"
    by (auto simp: empty_acc_def dumps_of_def)
  have "\<not> mixed_payload items \<Longrightarrow> PDict d' = annotations_of L items"
    using r(6,7) by (auto simp: mixed_payload_def annotations_of_def)
  with r show ?thesis
    by (simp add: extract_payload_body[OF wf] items mixed_payload_def accumulated_def empty_crash_def)
qed

lemma update_nonempty: "AList.update k v d \<noteq> []"
  by (cases d) auto

lemma fold_put_dump_nonempty: "xs \<noteq> [] \<or> d \<noteq> [] \<Longrightarrow> fold (put_dump L) xs d \<noteq> []"
  by (induction xs arbitrary: d) (auto simp: put_dump_def update_nonempty)

lemma dumps_only_accumulated:
  assumes "list_all is_dump_part items"
  shows "\<not> list_ex is_json_part items" and "\<not> list_ex is_text_part items"
    and "filter is_dump_part items = items" and "filter is_text_part items = []"
  using assms part_kinds_apart(2)
  by (auto simp: list_all_iff list_ex_iff filter_id_conv filter_empty_conv)

text \<open>
  Claim C10. When \<^verbatim>\<open>extract_payload\<close> returns empty annotations, the handler answers
  \<^verbatim>\<open>Discarded=1\<close> and leaves the resource as it was, whatever the dumps returned with them.
  In particular a well-formed request whose parts are all dumps parses to empty
  annotations and a non-empty dumps mapping, and is discarded.
\<close>

theorem empty_annotations_discarded:
  "(extract_payload L req = Inr (PDict [], ds) \<longrightarrow>
      on_post L cfg clk req s = Inr (respond ''Discarded=1'', s)) \<and>
   (\<not> header_malformed req \<and> \<not> bad_gzip L req \<and> body_items L req = Inr items \<and>
    items \<noteq> [] \<and> list_all is_dump_part items \<longrightarrow>
      extract_payload L req = Inr (PDict [], dumps_of L items) \<and> dumps_of L items \<noteq> [] \<and>
      on_post L cfg clk req s = Inr (respond ''Discarded=1'', s))"
proof (intro conjI impI)
  assume "extract_payload L req = Inr (PDict [], ds)"
  then show "on_post L cfg clk req s = Inr (respond ''Discarded=1'', s)"
    by (simp add: on_post_falsy)
next
  assume a: "\<not> header_malformed req \<and> \<not> bad_gzip L req \<and> body_items L req = Inr items \<and>
    items \<noteq> [] \<and> list_all is_dump_part items"
  then have d: "list_all is_dump_part items" by simp
  note k = dumps_only_accumulated[OF d]
  from k(1) have "\<forall>it \<in> set items. is_json_part it \<longrightarrow> (\<exists>d. json_loads L (fs_value it) = Inr (PDict d))"
    by (simp add: list_ex_iff)
  with a have "extract_payload L req =
      Inr (if mixed_payload items then (PDict [], []) else accumulated L items)"
    by (intro extract_payload_accumulated) simp_all
  with k show e: "extract_payload L req = Inr (PDict [], dumps_of L items)"
    by (simp add: mixed_payload_def accumulated_def annotations_of_def)
  from a k(3) show "dumps_of L items \<noteq> []"
    by (simp add: dumps_of_def fold_put_dump_nonempty)
  from e show "on_post L cfg clk req s = Inr (respond ''Discarded=1'', s)"
    by (simp add: on_post_falsy)
qed

text \<open>
  Claim C4, amended. A request that is malformed in its headers or whose gzipped body
  does not decompress parses to the empty pair. Otherwise, when the multipart parser
  returns the parts and every JSON blob among them loads to an object, the result is the
  empty pair if the parts mix a JSON blob with a text field, and else what the parts
  accumulate: the text fields or the last JSON blob, and the dumps. That can be the empty
  pair again, when no part contributes.
\<close>

theorem extract_payload_contract:
  "(header_malformed req \<or> bad_gzip L req \<longrightarrow> extract_payload L req = Inr (PDict [], [])) \<and>
   (\<not> header_malformed req \<and> \<not> bad_gzip L req \<and> body_items L req = Inr items \<and>
    (\<forall>it \<in> set items. is_json_part it \<longrightarrow> (\<exists>d. json_loads L (fs_value it) = Inr (PDict d))) \<longrightarrow>
      extract_payload L req =
        Inr (if mixed_payload items then (PDict [], []) else accumulated L items))"
proof (intro conjI impI)
  assume "header_malformed req \<or> bad_gzip L req"
  then show "extract_payload L req = Inr (PDict [], [])"
    using extract_payload_header_malformed[of req L] extract_payload_bad_gzip[of L req]
    by (auto simp: empty_crash_def)
next
  assume "\<not> header_malformed req \<and> \<not> bad_gzip L req \<and> body_items L req = Inr items \<and>
    (\<forall>it \<in> set items. is_json_part it \<longrightarrow> (\<exists>d. json_loads L (fs_value it) = Inr (PDict d)))"
  then show "extract_payload L req =
        Inr (if mixed_payload items then (PDict [], []) else accumulated L items)"
    by (intro extract_payload_accumulated) simp_all
qed

subsection \<open>What the handler writes\<close>

lemma map_of_update: "map_of (AList.update k v d) k' = (if k' = k then Some v else map_of d k')"
  by (simp add: update_conv')

lemma set_update:
  "p \<in> set (AList.update k v d) \<Longrightarrow> p = (k, v) \<or> p \<in> set d"
  by (induction d) (auto split: if_splits)

lemma assign_crash_id_cases:
  assumes "assign_crash_id L clk result d1 = (cid, d2)"
  shows "(map_of d1 ''uuid'' = Some cid \<and> d2 = d1) \<or>
         (cid = PStr (create_crash_id L (utc_now clk) result) \<and> d2 = AList.update ''uuid'' cid d1)"
  using assms by (auto simp: assign_crash_id_def Let_def split: option.splits if_splits)

lemma annotate_cases:
  assumes "annotate L cfg clk cs d0 = (result, cid, d)"
  obtains rule_name rate d1 d2 where
    "throttle L (stamp L clk cs d0) = (result, rule_name, rate)" and
    "d1 = AList.update ''throttle_rate'' rate
            (AList.update ''legacy_processing'' (PResult result) (stamp L clk cs d0))" and
    "assign_crash_id L clk result d1 = (cid, d2)" and
    "d = AList.update ''type_tag'' (PStr (strip_dash (dump_id_prefix cfg))) d2"
proof -
  obtain r rule_name rate where t: "throttle L (stamp L clk cs d0) = (r, rule_name, rate)"
    by (cases "throttle L (stamp L clk cs d0)") auto
  let ?d1 = "AList.update ''throttle_rate'' rate
            (AList.update ''legacy_processing'' (PResult r) (stamp L clk cs d0))"
  obtain c d2 where a: "assign_crash_id L clk r ?d1 = (c, d2)"
    by (cases "assign_crash_id L clk r ?d1") auto
  from assms t a have "r = result" "c = cid"
    "d = AList.update ''type_tag'' (PStr (strip_dash (dump_id_prefix cfg))) d2"
    by (simp_all add: annotate_def get_throttle_result_def)
  with t a show thesis by (intro that[of rule_name rate ?d1 d2]) simp_all
qed

lemma annotate_lookup:
  assumes "annotate L cfg clk cs d0 = (result, cid, d)"
  shows "map_of d ''timestamp'' = Some (PFloat (time_time clk)) \<and>
     map_of d ''submitted_timestamp'' = Some (PStr (isoformat L (utc_now clk))) \<and>
     map_of d ''dump_checksums'' = Some (PDict cs) \<and>
     map_of d ''MinidumpSha256Hash'' =
           Some (case map_of cs ''upload_file_minidump'' of None \<Rightarrow> PStr [] | Some h \<Rightarrow> h) \<and>
     map_of d ''legacy_processing'' = Some (PResult result) \<and>
     map_of d ''uuid'' = Some cid \<and>
     map_of d ''type_tag'' = Some (PStr (strip_dash (dump_id_prefix cfg))) \<and>
     result = fst (throttle L (stamp L clk cs d0))"
  using assms
proof (cases rule: annotate_cases)
  case (1 rule_name rate d1 d2)
  from assign_crash_id_cases[OF 1(3)] 1(1,2,4) show ?thesis
    by (auto simp: map_of_update stamp_def)
qed

section \<open>The dispatch of the handler\<close>

lemmas fx_defs =
  fx_libs_def fx_request_def fx_clock_def fx_parts_def text_part_def dump_part_def json_part_def
  fx_json_loads_def fx_isoformat_def fx_sanitize_def default_config_def

lemmas parse_defs =
  extract_payload_def parse_body_def extract_item_def empty_acc_def empty_crash_def item_name_def
  is_bytes_def split_once_def py_strip_def strip_with_def py_isspace_def startswith_def

lemmas post_defs =
  annotate_def stamp_def get_throttle_result_def assign_crash_id_def strip_dash_def
  strip_with_def Let_def

lemma fx_extract:
  "extract_payload (fx_libs fx_parts r) fx_request =
     Inr (PDict [(''ProductName'', PStr ''Firefox'')], [(''upload_file_minidump'', PBytes fx_dump)])"
  by (simp add: fx_defs parse_defs)

lemma fx_checksums:
  "checksums (fx_libs items r) [(''upload_file_minidump'', PBytes fx_dump)] =
     Inr [(''upload_file_minidump'', PStr fx_digest)]"
  by (simp add: fx_libs_def)

lemma fx_annotate:
  "annotate (fx_libs items r) default_config fx_clock [(''upload_file_minidump'', PStr fx_digest)]
     [(''ProductName'', PStr ''Firefox'')] =
   (r, PStr ''de1bb258-cbbf-4589-a673-34f800160918'', fx_annotations r)"
  by (simp add: fx_defs post_defs fx_annotations_def)

text \<open>
  The dispatch, where the stamping does not raise. For a payload that parsed to non-empty
  annotations and dumps that are byte sequences (\<open>checksums\<close> returns), the handler
  dispatches on the throttler's result:
  \<^verbatim>\<open>REJECT\<close> answers \<^verbatim>\<open>Discarded=1\<close> and \<^verbatim>\<open>FAKEACCEPT\<close> answers with the crash id, both leaving
  the resource as it was; any other result answers with the crash id and appends to the
  tail of the queue a report in state \<^verbatim>\<open>save\<close> with no errors, carrying the annotations,
  the dumps and that crash id. The status is 200 and the content type text/plain in all
  three cases.
\<close>

theorem on_post_dispatch:
  "extract_payload L req = Inr (PDict d0, ds) \<and> d0 \<noteq> [] \<and> checksums L ds = Inr cs \<and>
   annotate L cfg clk cs d0 = (result, cid, d) \<longrightarrow>
     result = fst (throttle L (stamp L clk cs d0)) \<and> map_of d ''uuid'' = Some cid \<and>
     on_post L cfg clk req s =
       Inr (if result = REJECT then
              (\<lparr>status = ''200 OK'', resp_content_type = ''text/plain'', body = ''Discarded=1''\<rparr>, s)
            else if result = FAKEACCEPT then
              (\<lparr>status = ''200 OK'', resp_content_type = ''text/plain'',
                body = ''CrashID='' @ dump_id_prefix cfg @ format_s L cid @ [CHR 0x0A]\<rparr>, s)
            else
              (\<lparr>status = ''200 OK'', resp_content_type = ''text/plain'',
                body = ''CrashID='' @ dump_id_prefix cfg @ format_s L cid @ [CHR 0x0A]\<rparr>,
               s\<lparr>crashmover_queue := crashmover_queue s @
                    [(next_oid s,
                      \<lparr>raw_crash = d, dumps = ds, crash_id = cid, errors = 0,
                       state = Some STATE_SAVE\<rparr>)],
                 next_oid := Suc (next_oid s)\<rparr>))"
proof (intro impI, elim conjE)
  assume a: "extract_payload L req = Inr (PDict d0, ds)" "d0 \<noteq> []" "checksums L ds = Inr cs"
    "annotate L cfg clk cs d0 = (result, cid, d)"
  from annotate_lookup[OF a(4)]
  have "result = fst (throttle L (stamp L clk cs d0))" and "map_of d ''uuid'' = Some cid"
    by simp_all
  moreover from on_post_accepting[OF a]
  have "on_post L cfg clk req s = Inr (dispatch L cfg result d ds cid s)" .
  ultimately show "result = fst (throttle L (stamp L clk cs d0)) \<and> map_of d ''uuid'' = Some cid \<and>
     on_post L cfg clk req s =
       Inr (if result = REJECT then
              (\<lparr>status = ''200 OK'', resp_content_type = ''text/plain'', body = ''Discarded=1''\<rparr>, s)
            else if result = FAKEACCEPT then
              (\<lparr>status = ''200 OK'', resp_content_type = ''text/plain'',
                body = ''CrashID='' @ dump_id_prefix cfg @ format_s L cid @ [CHR 0x0A]\<rparr>, s)
            else
              (\<lparr>status = ''200 OK'', resp_content_type = ''text/plain'',
                body = ''CrashID='' @ dump_id_prefix cfg @ format_s L cid @ [CHR 0x0A]\<rparr>,
               s\<lparr>crashmover_queue := crashmover_queue s @
                    [(next_oid s,
                      \<lparr>raw_crash = d, dumps = ds, crash_id = cid, errors = 0,
                       state = Some STATE_SAVE\<rparr>)],
                 next_oid := Suc (next_oid s)\<rparr>))"
    by (simp add: dispatch_def respond_def HTTP_200_def crash_id_body_def enqueue_new_def
          set_state_def CrashReport_def)
qed

text \<open>
  The first scenario under the three kinds of throttle result.
\<close>

theorem on_post_dispatch_example:
  "on_post (fx_libs fx_parts REJECT) default_config fx_clock fx_request init_system =
     Inr (\<lparr>status = ''200 OK'', resp_content_type = ''text/plain'', body = ''Discarded=1''\<rparr>,
          init_system) \<and>
   on_post (fx_libs fx_parts FAKEACCEPT) default_config fx_clock fx_request init_system =
     Inr (\<lparr>status = ''200 OK'', resp_content_type = ''text/plain'',
           body = ''CrashID=bp-de1bb258-cbbf-4589-a673-34f800160918'' @ [CHR 0x0A]\<rparr>,
          init_system) \<and>
   on_post (fx_libs fx_parts ACCEPT) default_config fx_clock fx_request init_system =
     Inr (\<lparr>status = ''200 OK'', resp_content_type = ''text/plain'',
           body = ''CrashID=bp-de1bb258-cbbf-4589-a673-34f800160918'' @ [CHR 0x0A]\<rparr>,
          \<lparr>crashmover_queue = [(0, fx_accepted)], held = [], calls = [], next_oid = 1\<rparr>)"
proof -
  have ex: "\<And>r. extract_payload (fx_libs fx_parts r) fx_request = Inr (PDict [(''ProductName'', PStr ''Firefox'')], [(''upload_file_minidump'', PBytes fx_dump)]) \<and>
      [(''ProductName'', PStr ''Firefox'')] \<noteq> [] \<and>
      checksums (fx_libs fx_parts r) [(''upload_file_minidump'', PBytes fx_dump)] =
        Inr [(''upload_file_minidump'', PStr fx_digest)] \<and>
      annotate (fx_libs fx_parts r) default_config fx_clock [(''upload_file_minidump'', PStr fx_digest)]
        [(''ProductName'', PStr ''Firefox'')] =
      (r, PStr ''de1bb258-cbbf-4589-a673-34f800160918'', fx_annotations r)"
    by (intro conjI fx_extract fx_checksums fx_annotate) simp
  note r = on_post_dispatch[where s = init_system, THEN mp, OF ex[of REJECT]]
  note f = on_post_dispatch[where s = init_system, THEN mp, OF ex[of FAKEACCEPT]]
  note a = on_post_dispatch[where s = init_system, THEN mp, OF ex[of ACCEPT]]
  from r f a show ?thesis
    by (simp add: default_config_def format_s_def init_system_def fx_accepted_def)
qed

section \<open>Runs of the first scenario\<close>

lemma fx_on_post:
  "on_post (fx_libs fx_parts ACCEPT) default_config fx_clock fx_request s =
     Inr (\<lparr>status = ''200 OK'', resp_content_type = ''text/plain'',
           body = ''CrashID=bp-de1bb258-cbbf-4589-a673-34f800160918'' @ [CHR 0x0A]\<rparr>,
          s\<lparr>crashmover_queue := crashmover_queue s @ [(next_oid s, fx_accepted)],
            next_oid := Suc (next_oid s)\<rparr>)"
proof -
  have "on_post (fx_libs fx_parts ACCEPT) default_config fx_clock fx_request s =
      Inr (dispatch (fx_libs fx_parts ACCEPT) default_config ACCEPT (fx_annotations ACCEPT)
             [(''upload_file_minidump'', PBytes fx_dump)]
             (PStr ''de1bb258-cbbf-4589-a673-34f800160918'') s)"
    by (rule on_post_accepting[OF fx_extract _ fx_checksums fx_annotate]) simp
  then show ?thesis
    by (simp add: dispatch_def respond_def HTTP_200_def crash_id_body_def enqueue_new_def
          set_state_def CrashReport_def format_s_def default_config_def fx_accepted_def)
qed

lemma fx_run:
  "run (fx_libs fx_parts ACCEPT) default_config
     [Post fx_clock fx_request, Pop, Complete 0 Raised, Pop, Complete 0 Returned, Pop, Complete 0 Returned]
     init_system =
   \<lparr>crashmover_queue = [], held = [],
    calls = [SaveCall 0 Raised, SaveCall 0 Returned, PublishCall 0 Returned], next_oid = 1\<rparr>"
  by (simp add: fx_on_post init_system_def popleft_def complete_def crashmover_attempt_def
        backend_call_def on_exception_def MAX_ATTEMPTS_def fx_accepted_def set_state_def
        STATE_SAVE_def STATE_PUBLISH_def)


lemma fx_enqueued:
  "enqueued init_system
     (init_system\<lparr>crashmover_queue := crashmover_queue init_system @ [(next_oid init_system, fx_accepted)],
                  next_oid := Suc (next_oid init_system)\<rparr>) = Some fx_accepted"
  by (simp add: enqueued_def init_system_def)

text \<open>
  A held report at 3 errors is requeued with 4; at 19 it is dropped and stays out; 19 failed
  saves, a save and 19 failed publishes leave it alive, one more failure drops it.
\<close>

theorem crashmover_retry_ceiling_example:
  "wf_system (fx_holding 3) \<and> wf_system (fx_holding 19) \<and>
   state fx_report = Some STATE_SAVE \<and> errors fx_report = 0 \<and>
   crashmover_queue (complete 0 Raised (fx_holding 3)) = [(0, fx_report\<lparr>errors := 4\<rparr>)] \<and>
   crashmover_queue (complete 0 Raised (fx_holding 19)) = [] \<and>
   0 \<notin> set (live_oids (run (fx_libs fx_parts ACCEPT) default_config
                          [Post fx_clock fx_request, Pop] (complete 0 Raised (fx_holding 19)))) \<and>
   attempts (replicate 20 Raised) fx_report = None \<and>
   attempts (replicate 19 Raised @ Returned # replicate 19 Raised) fx_report =
     Some (fx_report\<lparr>state := Some STATE_PUBLISH, errors := 19\<rparr>) \<and>
   attempts (replicate 19 Raised @ Returned # replicate 20 Raised) fx_report = None"
proof -
  have wf: "wf_system (fx_holding 3)" "wf_system (fx_holding 19)"
    by (simp_all add: wf_system_def live_oids_def fx_holding_def)
  have st: "state fx_report = Some STATE_SAVE" "errors fx_report = 0"
    by (simp_all add: fx_report_def set_state_def)
  note a = crashmover_retry_ceiling[where s = "fx_holding 3" and i = 0
      and cr = "fx_report\<lparr>errors := 3\<rparr>" and ?cr0.0 = fx_report and k = 19 and j = 19]
  note b = crashmover_retry_ceiling[where s = "fx_holding 19" and i = 0
      and cr = "fx_report\<lparr>errors := 19\<rparr>" and ?cr0.0 = fx_report and k = 19 and j = 20
      and L = "fx_libs fx_parts ACCEPT" and cfg = default_config
      and acts = "[Post fx_clock fx_request, Pop]"]
  from a b wf st show ?thesis by (simp add: fx_holding_def)
qed

text \<open>
  Claim C2 fails on the code. The first scenario is accepted and a worker pops it; its
  \<^verbatim>\<open>save_crash\<close> ends in an exception that is not an \<^verbatim>\<open>Exception\<close>, say a \<^verbatim>\<open>gevent.Timeout\<close>.
  One attempt was made and the ceiling is far, yet the error is not counted and the report
  is in the queue no more and held by no worker: it is lost. The docstring of
  \<^verbatim>\<open>crashmover_process_queue\<close> asks for the opposite, the report back in the queue on any kind
  of problem. No report in any state survives such an exception.
\<close>

theorem crashmover_loses_report_on_escape:
  "crashmover_attempt Escaped cr = None \<and>
   state fx_accepted = Some STATE_SAVE \<and> errors fx_accepted + 1 < MAX_ATTEMPTS \<and>
   run (fx_libs fx_parts ACCEPT) default_config [Post fx_clock fx_request, Pop] init_system =
     \<lparr>crashmover_queue = [], held = [(0, fx_accepted)], calls = [], next_oid = 1\<rparr> \<and>
   run (fx_libs fx_parts ACCEPT) default_config
     [Post fx_clock fx_request, Pop, Complete 0 Escaped] init_system =
     \<lparr>crashmover_queue = [], held = [], calls = [SaveCall 0 Escaped], next_oid = 1\<rparr>"
proof -
  have "crashmover_attempt Escaped cr = None"
    by (simp add: crashmover_attempt_def)
  moreover have "state fx_accepted = Some STATE_SAVE" and "errors fx_accepted + 1 < MAX_ATTEMPTS"
    by (simp_all add: fx_accepted_def MAX_ATTEMPTS_def)
  moreover have "run (fx_libs fx_parts ACCEPT) default_config [Post fx_clock fx_request, Pop]
      init_system = \<lparr>crashmover_queue = [], held = [(0, fx_accepted)], calls = [], next_oid = 1\<rparr>"
    by (simp add: fx_on_post init_system_def popleft_def)
  moreover have "run (fx_libs fx_parts ACCEPT) default_config
      [Post fx_clock fx_request, Pop, Complete 0 Escaped] init_system =
      \<lparr>crashmover_queue = [], held = [], calls = [SaveCall 0 Escaped], next_oid = 1\<rparr>"
    by (simp add: fx_on_post init_system_def popleft_def complete_def crashmover_attempt_def
          backend_call_def fx_accepted_def STATE_SAVE_def STATE_PUBLISH_def)
  ultimately show ?thesis by blast
qed

text \<open>
  The first scenario after one failed save: queued with one error.
\<close>

theorem queued_errors_below_max_witness:
  "crashmover_queue (run (fx_libs fx_parts ACCEPT) default_config
      [Post fx_clock fx_request, Pop, Complete 0 Raised] init_system) = [(0, fx_accepted\<lparr>errors := 1\<rparr>)] \<and>
   errors (fx_accepted\<lparr>errors := 1\<rparr>) < MAX_ATTEMPTS \<and>
   crashmover_attempt Returned fx_accepted = Some (fx_accepted\<lparr>state := Some STATE_PUBLISH, errors := 0\<rparr>) \<and>
   crashmover_attempt Raised (fx_accepted\<lparr>errors := 19\<rparr>) = None \<and>
   errors (set_state (fx_accepted\<lparr>errors := 7\<rparr>) STATE_PUBLISH) = 0 \<and>
   errors fx_accepted = 0"
proof -
  let ?L = "fx_libs fx_parts ACCEPT"
  let ?acts = "[Post fx_clock fx_request, Pop, Complete 0 Raised]"
  have r: "crashmover_queue (run ?L default_config ?acts init_system) = [(0, fx_accepted\<lparr>errors := 1\<rparr>)]"
    by (simp add: fx_on_post init_system_def popleft_def complete_def crashmover_attempt_def
        on_exception_def MAX_ATTEMPTS_def fx_accepted_def)
  have t: "crashmover_attempt Returned fx_accepted = Some (fx_accepted\<lparr>state := Some STATE_PUBLISH, errors := 0\<rparr>)"
    by (simp add: crashmover_attempt_def fx_accepted_def set_state_def)
  have p: "on_post ?L default_config fx_clock fx_request init_system =
        Inr (respond (''CrashID=bp-de1bb258-cbbf-4589-a673-34f800160918'' @ [CHR 0x0A]),
             init_system\<lparr>crashmover_queue := crashmover_queue init_system @ [(next_oid init_system, fx_accepted)],
                  next_oid := Suc (next_oid init_system)\<rparr>)"
    by (simp add: fx_on_post respond_def HTTP_200_def)
  note a = queued_errors_below_max[where L = ?L and cfg = default_config and acts = ?acts
      and out = Returned and cr = fx_accepted
      and cr' = "fx_accepted\<lparr>state := Some STATE_PUBLISH, errors := 0\<rparr>"
      and clk = fx_clock and req = fx_request and s = init_system and ?cr1.0 = fx_accepted, unfolded p]
  note b = queued_errors_below_max[where cr = "fx_accepted\<lparr>errors := 19\<rparr>"]
  note c = queued_errors_below_max[where cr = "fx_accepted\<lparr>errors := 7\<rparr>" and st = STATE_PUBLISH]
  from a b c r t fx_enqueued show ?thesis
    by (simp add: MAX_ATTEMPTS_def STATE_SAVE_def STATE_PUBLISH_def)
qed

text \<open>
  The first scenario saved at the second attempt and then published.
\<close>

theorem publish_only_after_save_witness:
  "calls (run (fx_libs fx_parts ACCEPT) default_config
      [Post fx_clock fx_request, Pop, Complete 0 Raised, Pop, Complete 0 Returned, Pop, Complete 0 Returned]
      init_system) = [SaveCall 0 Raised, SaveCall 0 Returned] @ PublishCall 0 Returned # [] \<and>
   SaveCall 0 Returned \<in> set [SaveCall 0 Raised, SaveCall 0 Returned] \<and>
   state fx_accepted = Some STATE_SAVE \<and> errors fx_accepted = 0 \<and>
   attempts (replicate 20 Raised @ [Returned]) fx_accepted = None \<and>
   attempt_calls 0 (replicate 20 Raised @ [Returned]) fx_accepted = replicate 20 (SaveCall 0 Raised)"
proof -
  let ?L = "fx_libs fx_parts ACCEPT"
  have st: "state fx_accepted = Some STATE_SAVE" "errors fx_accepted = 0"
    by (simp_all add: fx_accepted_def)
  note a = publish_only_after_save[where L = ?L and cfg = default_config
      and acts = "[Post fx_clock fx_request, Pop, Complete 0 Raised, Pop, Complete 0 Returned, Pop, Complete 0 Returned]"
      and pre = "[SaveCall 0 Raised, SaveCall 0 Returned]" and i = 0 and out = Returned and post = "[]"
      and ?cr0.0 = fx_accepted and j = 0 and outs = "[Returned]"]
  have c: "calls (run ?L default_config
      [Post fx_clock fx_request, Pop, Complete 0 Raised, Pop, Complete 0 Returned, Pop, Complete 0 Returned]
      init_system) = [SaveCall 0 Raised, SaveCall 0 Returned, PublishCall 0 Returned]"
    by (subst fx_run) simp
  from a st c show ?thesis by (simp del: run.simps)
qed

section \<open>The annotations of an enqueued report\<close>

lemma checksums_str: "checksums L ds = Inr cs \<Longrightarrow> all_str_values cs"
proof (induction ds arbitrary: cs)
  case Nil
  then show ?case by (simp add: all_str_values_def)
next
  case (Cons p ds)
  obtain n v where p: "p = (n, v)" by (cases p)
  from Cons.prems p obtain b cs' where "v = PBytes b" and c: "checksums L ds = Inr cs'"
    and cs: "cs = (n, PStr (sha256_hexdigest L b)) # cs'"
    by (auto split: pyval.splits sum.splits)
  from Cons.IH[OF c] cs show ?case by (simp add: all_str_values_def is_str_def)
qed

lemma checksums_bytes:
  "(\<exists>cs. checksums L ds = Inr cs) = list_all (\<lambda>p. is_bytes (snd p)) ds"
proof (induction ds)
  case Nil
  then show ?case by simp
next
  case (Cons p ds)
  obtain n v where p: "p = (n, v)" by (cases p)
  show ?case
  proof (cases v)
    case (PBytes b)
    with Cons p show ?thesis by (auto simp: is_bytes_def split: sum.splits)
  qed (simp_all add: p is_bytes_def)
qed

lemma all_str_lookup:
  assumes "all_str_values d" and "map_of d k = Some v"
  shows "is_str v"
proof -
  from assms(2) have "(k, v) \<in> set d" by (rule map_of_SomeD)
  with assms(1) have "is_str (snd (k, v))" unfolding all_str_values_def list_all_iff by blast
  then show ?thesis by simp
qed

lemma list_all_update:
  "list_all P d \<Longrightarrow> P (k, v) \<Longrightarrow> list_all P (AList.update k v d)"
  by (induction d) auto

text \<open>
  Claim C7, amended. In every report the handler enqueues, \<^verbatim>\<open>timestamp\<close> is the reading of
  \<^verbatim>\<open>time.time()\<close> taken on entry and \<^verbatim>\<open>submitted_timestamp\<close> is the ISO text of the reading of
  \<^verbatim>\<open>utc_now()\<close> taken after the payload was parsed. They are two readings of the clock, and
  name one instant exactly when the two readings give the same ISO text.
\<close>

theorem timestamps_from_two_readings:
  "on_post L cfg clk req s = Inr (resp, s') \<and> enqueued s s' = Some cr \<longrightarrow>
     map_of (raw_crash cr) ''timestamp'' = Some (PFloat (time_time clk)) \<and>
     map_of (raw_crash cr) ''submitted_timestamp'' = Some (PStr (isoformat L (utc_now clk))) \<and>
     same_moment L (raw_crash cr) =
       (isoformat L (utc_now clk) = isoformat L (round (time_time clk * 1000000)))"
proof (intro impI, elim conjE)
  assume "on_post L cfg clk req s = Inr (resp, s')" and "enqueued s s' = Some cr"
  then show "map_of (raw_crash cr) ''timestamp'' = Some (PFloat (time_time clk)) \<and>
     map_of (raw_crash cr) ''submitted_timestamp'' = Some (PStr (isoformat L (utc_now clk))) \<and>
     same_moment L (raw_crash cr) =
       (isoformat L (utc_now clk) = isoformat L (round (time_time clk * 1000000)))"
  proof (cases rule: on_post_enqueued)
    case (1 d0 ds cs result cid d)
    from annotate_lookup[OF 1(4)] 1(7) show ?thesis
      by (simp add: same_moment_def set_state_def CrashReport_def)
  qed
qed

text \<open>
  Claim C7 as stated fails when the clock moves while the payload is parsed: entered at
  100 s and stamped at 101 s, the first scenario is enqueued with \<^verbatim>\<open>timestamp\<close> 100.0 and
  \<^verbatim>\<open>submitted_timestamp\<close> 1970-01-01T00:01:41+00:00.
\<close>

theorem timestamps_same_moment_counterexample:
  "on_post (fx_libs fx_parts ACCEPT) default_config fx_clock fx_request init_system =
     Inr (respond (''CrashID=bp-de1bb258-cbbf-4589-a673-34f800160918'' @ [CHR 0x0A]),
          init_system\<lparr>crashmover_queue := [(0, fx_accepted)], next_oid := 1\<rparr>) \<and>
   \<not> same_moment (fx_libs fx_parts ACCEPT) (raw_crash fx_accepted)"
  by (simp add: fx_on_post respond_def HTTP_200_def init_system_def)
     (simp add: same_moment_def fx_accepted_def fx_annotations_def fx_libs_def fx_isoformat_def)

text \<open>
  The two readings in the report of the first scenario.
\<close>

theorem timestamps_from_two_readings_witness:
  "enqueued init_system (init_system\<lparr>crashmover_queue := [(0, fx_accepted)], next_oid := 1\<rparr>) =
     Some fx_accepted \<and>
   map_of (raw_crash fx_accepted) ''timestamp'' = Some (PFloat 100) \<and>
   map_of (raw_crash fx_accepted) ''submitted_timestamp'' = Some (PStr ''1970-01-01T00:01:41+00:00'')"
proof -
  have p: "on_post (fx_libs fx_parts ACCEPT) default_config fx_clock fx_request init_system =
     Inr (respond (''CrashID=bp-de1bb258-cbbf-4589-a673-34f800160918'' @ [CHR 0x0A]),
          init_system\<lparr>crashmover_queue := [(0, fx_accepted)], next_oid := 1\<rparr>)"
    by (simp add: fx_on_post respond_def HTTP_200_def init_system_def)
  have e: "enqueued init_system (init_system\<lparr>crashmover_queue := [(0, fx_accepted)], next_oid := 1\<rparr>) =
     Some fx_accepted"
    by (simp add: enqueued_def init_system_def)
  from timestamps_from_two_readings[THEN mp, OF conjI[OF p e]] e show ?thesis
    by (simp add: fx_clock_def fx_libs_def fx_isoformat_def)
qed

text \<open>
  Claim C8, amended. When the parsed fields are strings, every value of the annotations of
  an enqueued report is a string except under four keys: \<^verbatim>\<open>timestamp\<close> holds a float,
  \<^verbatim>\<open>dump_checksums\<close> a mapping from dump names to hex strings, and \<^verbatim>\<open>legacy_processing\<close> and
  \<^verbatim>\<open>throttle_rate\<close> what the throttler returned. The keys are strings throughout.
\<close>

theorem annotation_value_types:
  "on_post L cfg clk req s = Inr (resp, s') \<and> enqueued s s' = Some cr \<and>
   extract_payload L req = Inr (PDict d0, ds) \<and> all_str_values d0 \<longrightarrow>
     (\<forall>p \<in> set (raw_crash cr). fst p \<notin> set typed_keys \<longrightarrow> is_str (snd p)) \<and>
     map_of (raw_crash cr) ''timestamp'' = Some (PFloat (time_time clk)) \<and>
     (\<exists>cs. map_of (raw_crash cr) ''dump_checksums'' = Some (PDict cs) \<and> all_str_values cs) \<and>
     (\<exists>r. map_of (raw_crash cr) ''legacy_processing'' = Some (PResult r))"
proof (intro impI, elim conjE)
  assume op: "on_post L cfg clk req s = Inr (resp, s')" and en: "enqueued s s' = Some cr"
    and ep: "extract_payload L req = Inr (PDict d0, ds)" and str: "all_str_values d0"
  from op en show "(\<forall>p \<in> set (raw_crash cr). fst p \<notin> set typed_keys \<longrightarrow> is_str (snd p)) \<and>
     map_of (raw_crash cr) ''timestamp'' = Some (PFloat (time_time clk)) \<and>
     (\<exists>cs. map_of (raw_crash cr) ''dump_checksums'' = Some (PDict cs) \<and> all_str_values cs) \<and>
     (\<exists>r. map_of (raw_crash cr) ''legacy_processing'' = Some (PResult r))"
  proof (cases rule: on_post_enqueued)
    case (1 d0' ds' cs result cid d)
    with ep have eq: "d0' = d0" "ds' = ds" by simp_all
    from 1(7) have rc: "raw_crash cr = d" by (simp add: set_state_def CrashReport_def)
    note look = annotate_lookup[OF 1(4)]
    note cstr = checksums_str[OF 1(3)]
    let ?ok = "\<lambda>p. fst p \<in> set typed_keys \<or> is_str (snd p)"
    have vals: "list_all ?ok d"
      using 1(4)
    proof (cases rule: annotate_cases)
      case (1 rule_name rate d1 d2)
      have hash: "is_str (case map_of cs ''upload_file_minidump'' of None \<Rightarrow> PStr [] | Some h \<Rightarrow> h)"
        using cstr by (auto simp: is_str_def split: option.splits dest: all_str_lookup)
      from str eq have "list_all ?ok d0'" by (simp add: all_str_values_def list_all_iff)
      with hash have "list_all ?ok (stamp L clk cs d0')"
        unfolding stamp_def by (intro list_all_update) (simp_all add: typed_keys_def is_str_def)
      then have d1: "list_all ?ok d1"
        unfolding 1(2) by (intro list_all_update) (simp_all add: typed_keys_def)
      have "list_all ?ok d2"
        using assign_crash_id_cases[OF 1(3)] d1 by (auto intro!: list_all_update simp: is_str_def)
      then show ?thesis unfolding 1(4) by (intro list_all_update) (simp_all add: is_str_def)
    qed
    then have "\<forall>p \<in> set d. fst p \<notin> set typed_keys \<longrightarrow> is_str (snd p)"
      unfolding list_all_iff by blast
    with look cstr rc show ?thesis by auto
  qed
qed

text \<open>
  Claim C8 as stated fails on the first scenario: the annotations of the enqueued report
  hold a float and a mapping.
\<close>

theorem annotation_strings_counterexample:
  "on_post (fx_libs fx_parts ACCEPT) default_config fx_clock fx_request init_system =
     Inr (respond (''CrashID=bp-de1bb258-cbbf-4589-a673-34f800160918'' @ [CHR 0x0A]),
          init_system\<lparr>crashmover_queue := [(0, fx_accepted)], next_oid := 1\<rparr>) \<and>
   \<not> all_str_values (raw_crash fx_accepted)"
  by (simp add: fx_on_post respond_def HTTP_200_def init_system_def)
     (simp add: all_str_values_def fx_accepted_def fx_annotations_def is_str_def)


text \<open>
  The report of the first scenario: strings but for the four keys.
\<close>

theorem annotation_value_types_witness:
  "all_str_values [(''ProductName'', PStr ''Firefox'')] \<and>
   list_all (\<lambda>p. fst p \<notin> set typed_keys \<longrightarrow> is_str (snd p)) (raw_crash fx_accepted) \<and>
   map_of (raw_crash fx_accepted) ''timestamp'' = Some (PFloat 100) \<and>
   map_of (raw_crash fx_accepted) ''dump_checksums'' =
     Some (PDict [(''upload_file_minidump'', PStr fx_digest)]) \<and>
   map_of (raw_crash fx_accepted) ''legacy_processing'' = Some (PResult ACCEPT)"
proof -
  have p: "on_post (fx_libs fx_parts ACCEPT) default_config fx_clock fx_request init_system =
     Inr (respond (''CrashID=bp-de1bb258-cbbf-4589-a673-34f800160918'' @ [CHR 0x0A]),
          init_system\<lparr>crashmover_queue := [(0, fx_accepted)], next_oid := 1\<rparr>)"
    by (simp add: fx_on_post respond_def HTTP_200_def init_system_def)
  have e: "enqueued init_system (init_system\<lparr>crashmover_queue := [(0, fx_accepted)], next_oid := 1\<rparr>) =
     Some fx_accepted"
    by (simp add: enqueued_def init_system_def)
  have a: "all_str_values [(''ProductName'', PStr ''Firefox'')]"
    by (simp add: all_str_values_def is_str_def)
  from annotation_value_types[THEN mp, OF conjI[OF p conjI[OF e conjI[OF fx_extract a]]]] a
  show ?thesis
    by (simp add: list_all_iff fx_clock_def) (simp add: fx_accepted_def fx_annotations_def)
qed

lemma fx_minidump_extract:
  "extract_payload (fx_libs fx_minidump_parts r) fx_request =
     Inr (PDict [(''ProductName'', PStr ''Firefox'')], [(''minidump'', PBytes fx_dump)])"
  by (simp add: fx_defs fx_minidump_parts_def parse_defs)

text \<open>
  Claim C6 fails on the code. With \<^verbatim>\<open>dump_field\<close> set to \<^verbatim>\<open>minidump\<close> and the dump sent under
  that name, the report is enqueued with the dump and its checksum in \<^verbatim>\<open>dump_checksums\<close>, but
  \<^verbatim>\<open>MinidumpSha256Hash\<close> is the empty string: line 381 looks up the literal
  \<^verbatim>\<open>upload_file_minidump\<close> and never reads the option.
\<close>

theorem minidump_hash_ignores_dump_field:
  "dump_field fx_config = ''minidump'' \<and>
   map_option (\<lambda>cr. (map_of (dumps cr) ''minidump'',
                      map_of (raw_crash cr) ''dump_checksums'',
                      map_of (raw_crash cr) ''MinidumpSha256Hash''))
     (enqueued init_system
        (perform (fx_libs fx_minidump_parts ACCEPT) fx_config (Post fx_clock fx_request) init_system)) =
   Some (Some (PBytes fx_dump), Some (PDict [(''minidump'', PStr fx_digest)]), Some (PStr []))"
proof -
  have c: "checksums (fx_libs fx_minidump_parts ACCEPT) [(''minidump'', PBytes fx_dump)] =
      Inr [(''minidump'', PStr fx_digest)]"
    by (simp add: fx_libs_def)
  obtain result cid d where an: "annotate (fx_libs fx_minidump_parts ACCEPT) fx_config fx_clock
      [(''minidump'', PStr fx_digest)] [(''ProductName'', PStr ''Firefox'')] = (result, cid, d)"
    by (metis prod_cases3)
  note look = annotate_lookup[OF an]
  from look have r: "result = ACCEPT" by (simp add: fx_libs_def)
  have "on_post (fx_libs fx_minidump_parts ACCEPT) fx_config fx_clock fx_request init_system =
      Inr (dispatch (fx_libs fx_minidump_parts ACCEPT) fx_config result d
             [(''minidump'', PBytes fx_dump)] cid init_system)"
    by (rule on_post_accepting[OF fx_minidump_extract _ c an]) simp
  with r look show ?thesis
    by (simp add: dispatch_def enqueue_new_def enqueued_def init_system_def set_state_def
          CrashReport_def fx_config_def)
qed

text \<open>
  Claim C1 fails on the code. A part of type \<^verbatim>\<open>application/json\<close> holding \<^verbatim>\<open>{\<close> makes
  \<^verbatim>\<open>json.loads\<close> raise ValueError, which nothing between line 307 and the caller of
  \<^verbatim>\<open>on_post\<close> catches; a blob holding the list \<^verbatim>\<open>[1]\<close> loads, is truthy, and raises TypeError
  at the first item assignment of line 373. Neither request gets a body.
\<close>

theorem on_post_raises_on_bad_json:
  "on_post (fx_libs [json_part ''{''] ACCEPT) default_config fx_clock fx_request init_system =
     Inl ValueError \<and>
   on_post (fx_libs [json_part ''[1]''] ACCEPT) default_config fx_clock fx_request init_system =
     Inl TypeError"
  by (simp add: on_post_def accept_crash_def fx_defs parse_defs)

lemma fx_request_wellformed:
  "\<not> header_malformed fx_request" "\<not> bad_gzip L fx_request"
  "body_items (fx_libs items r) fx_request = Inr items"
  by (simp_all add: header_malformed_def bad_gzip_def is_gzip_def body_items_def fx_request_def
        media_type_def has_boundary_def declared_length_def py_strip_def strip_with_def
        py_isspace_def startswith_def fx_libs_def)

text \<open>
  The request of the first scenario with the minidump sent as a plain field parses
  without complaint: the part has the media type of a dump, so line 309 files its text
  value under \<^verbatim>\<open>dumps\<close>.
\<close>

lemma fx_text_dump_extract:
  "extract_payload (fx_libs fx_text_dump_parts r) fx_request =
     Inr (PDict [(''ProductName'', PStr ''Firefox'')],
          [(''upload_file_minidump'', PStr ''abcd1234'')])"
  by (simp add: fx_defs fx_text_dump_parts_def parse_defs)

text \<open>
  Claim C5 fails on the code. On that request, parsed to non-empty annotations and one
  dump, \<^verbatim>\<open>hashlib.sha256\<close> at line 378 raises TypeError on the text before the throttler is
  asked: whatever its result would be, the handler does not dispatch and writes no body.
\<close>

theorem on_post_raises_on_text_dump:
  "on_post (fx_libs fx_text_dump_parts ACCEPT) default_config fx_clock fx_request init_system =
     Inl TypeError \<and>
   on_post (fx_libs fx_text_dump_parts REJECT) default_config fx_clock fx_request init_system =
     Inl TypeError \<and>
   on_post (fx_libs fx_text_dump_parts FAKEACCEPT) default_config fx_clock fx_request init_system =
     Inl TypeError"
  by (simp add: on_post_def fx_text_dump_extract accept_crash_def)

text \<open>
  Claim C4 as stated fails from right to left: a well-formed request whose only part is
  named \<^verbatim>\<open>dump_checksums\<close> is malformed in none of the six ways, and parses to the empty pair.
\<close>

theorem empty_pair_without_malformation_counterexample:
  "extract_payload (fx_libs [text_part ''dump_checksums'' ''{}''] ACCEPT) fx_request =
     Inr (PDict [], []) \<and>
   \<not> malformed (fx_libs [text_part ''dump_checksums'' ''{}''] ACCEPT) fx_request"
  by (simp add: malformed_def fx_request_wellformed)
     (simp add: fx_defs parse_defs mixed_payload_def is_json_part_def is_skipped_def)

text \<open>
  Both halves of the contract: a request of the wrong content type, and the first scenario.
\<close>

theorem extract_payload_contract_witness:
  "header_malformed (fx_request\<lparr>content_type := Some ''application/json''\<rparr>) \<and>
   extract_payload (fx_libs fx_parts ACCEPT) (fx_request\<lparr>content_type := Some ''application/json''\<rparr>) =
     Inr (PDict [], []) \<and>
   \<not> header_malformed fx_request \<and> \<not> bad_gzip (fx_libs fx_parts ACCEPT) fx_request \<and>
   body_items (fx_libs fx_parts ACCEPT) fx_request = Inr fx_parts \<and>
   \<not> mixed_payload fx_parts \<and>
   accumulated (fx_libs fx_parts ACCEPT) fx_parts =
     (PDict [(''ProductName'', PStr ''Firefox'')], [(''upload_file_minidump'', PBytes fx_dump)]) \<and>
   extract_payload (fx_libs fx_parts ACCEPT) fx_request =
     Inr (PDict [(''ProductName'', PStr ''Firefox'')], [(''upload_file_minidump'', PBytes fx_dump)])"
proof -
  let ?L = "fx_libs fx_parts ACCEPT"
  let ?bad = "fx_request\<lparr>content_type := Some ''application/json''\<rparr>"
  have h: "header_malformed ?bad"
    by (simp add: header_malformed_def fx_request_def media_type_def py_strip_def strip_with_def
          py_isspace_def)
  have kinds: "\<not> is_json_part (text_part ''ProductName'' ''Firefox'')"
    "\<not> is_json_part (dump_part ''upload_file_minidump'' fx_dump)"
    "is_text_part (text_part ''ProductName'' ''Firefox'')"
    "is_dump_part (dump_part ''upload_file_minidump'' fx_dump)"
    by (simp_all add: is_text_part_def is_dump_part_def is_json_part_def is_skipped_def
          item_name_def text_part_def dump_part_def startswith_def is_bytes_def)
  have j: "\<forall>it \<in> set fx_parts. is_json_part it \<longrightarrow>
             (\<exists>d. json_loads ?L (fs_value it) = Inr (PDict d))"
    by (simp add: fx_parts_def kinds)
  have m: "\<not> mixed_payload fx_parts" by (simp add: mixed_payload_def fx_parts_def kinds)
  have acc: "accumulated ?L fx_parts =
     (PDict [(''ProductName'', PStr ''Firefox'')], [(''upload_file_minidump'', PBytes fx_dump)])"
    using kinds part_kinds_apart(3)[OF kinds(3)] part_kinds_apart(2)[OF kinds(4)]
    by (simp add: accumulated_def annotations_of_def dumps_of_def fx_parts_def)
       (simp add: put_text_def put_dump_def item_name_def text_part_def dump_part_def
          fx_libs_def fx_sanitize_def)
  note a = extract_payload_contract[where L = ?L and req = ?bad]
  note b = extract_payload_contract[where L = ?L and req = fx_request and items = fx_parts]
  from a b h fx_request_wellformed(1) fx_request_wellformed(2)[of ?L]
    fx_request_wellformed(3)[of fx_parts ACCEPT] j m acc
  show ?thesis by simp
qed

text \<open>
  A well-formed request holding the minidump and nothing else is discarded.
\<close>

theorem empty_annotations_discarded_witness:
  "\<not> header_malformed fx_request \<and>
   body_items (fx_libs [dump_part ''upload_file_minidump'' fx_dump] ACCEPT) fx_request =
     Inr [dump_part ''upload_file_minidump'' fx_dump] \<and>
   list_all is_dump_part [dump_part ''upload_file_minidump'' fx_dump] \<and>
   extract_payload (fx_libs [dump_part ''upload_file_minidump'' fx_dump] ACCEPT) fx_request =
     Inr (PDict [], [(''upload_file_minidump'', PBytes fx_dump)]) \<and>
   on_post (fx_libs [dump_part ''upload_file_minidump'' fx_dump] ACCEPT) default_config fx_clock
     fx_request init_system =
     Inr (\<lparr>status = ''200 OK'', resp_content_type = ''text/plain'', body = ''Discarded=1''\<rparr>,
          init_system)"
proof -
  let ?items = "[dump_part ''upload_file_minidump'' fx_dump]"
  let ?L = "fx_libs ?items ACCEPT"
  have k: "list_all is_dump_part ?items"
    by (simp add: is_dump_part_def is_json_part_def is_skipped_def
          item_name_def dump_part_def startswith_def)
  have d: "dumps_of ?L ?items = [(''upload_file_minidump'', PBytes fx_dump)]"
    using k by (simp add: dumps_of_def)
       (simp add: put_dump_def item_name_def dump_part_def fx_libs_def fx_sanitize_def)
  note a = empty_annotations_discarded[where L = ?L and req = fx_request and items = ?items
      and ds = "[(''upload_file_minidump'', PBytes fx_dump)]" and s = init_system
      and cfg = default_config and clk = fx_clock]
  from a k d fx_request_wellformed(1) fx_request_wellformed(2)[of ?L]
    fx_request_wellformed(3)[of ?items ACCEPT]
  show ?thesis
    by (simp add: respond_def HTTP_200_def)
qed


end
